theory Spec2Isabelle
  imports Complex_Main "HOL-Library.AList" "HOL-Library.Sublist"
begin

section \<open>JavaScript values\<close>

text \<open>
  The tools are TypeScript. A JavaScript \<^verbatim>\<open>number\<close> is an IEEE double; the embedding
  idealises the finite doubles as \<^typ>\<open>real\<close> (exact arithmetic, no rounding, no overflow),
  and adds an explicit \<open>NaN\<close> only where the source can produce one from well-typed
  input (the date arithmetic of the hybrid scorer). Array lengths, indices and counters
  are \<^typ>\<open>nat\<close>. A \<^verbatim>\<open>throw\<close> is the \<open>Inl\<close> of a result.
\<close>

datatype error =
  Error string        \<comment> \<open>\<^verbatim>\<open>throw new Error(message)\<close>\<close>
| TypeError string    \<comment> \<open>a run-time \<^verbatim>\<open>TypeError\<close> (a property read on \<^verbatim>\<open>undefined\<close>)\<close>
| UpstreamError string \<comment> \<open>a rejection of the embedding provider or of the vector store\<close>

text \<open>\<^verbatim>\<open>Number.prototype.toString\<close> on a non-negative integer (below \<open>10^21\<close>): its decimal digits.\<close>

definition digitChar :: "nat \<Rightarrow> char" where
  "digitChar d = ''0123456789'' ! d"

fun toString :: "nat \<Rightarrow> string" where
  "toString n = (if n < 10 then [digitChar n] else toString (n div 10) @ [digitChar (n mod 10)])"

declare toString.simps [simp del]

text \<open>
  A JavaScript \<^verbatim>\<open>Map\<close> keeps insertion order; \<^verbatim>\<open>set\<close> on a present key replaces the value
  in place, on a new key appends. That is \<^const>\<open>AList.update\<close> on an association list;
  \<^verbatim>\<open>get\<close> is \<^const>\<open>map_of\<close>, \<^verbatim>\<open>has\<close> is membership in the keys.
\<close>

definition has :: "('k \<times> 'v) list \<Rightarrow> 'k \<Rightarrow> bool" where
  "has m k = (k \<in> fst ` set m)"

text \<open>
  \<^verbatim>\<open>Array.prototype.sort(compareFn)\<close> is stable. With a comparator \<open>cmp a b\<close> whose
  sign orders the elements, a stable insertion sort computes the same array. (With an
  inconsistent comparator ECMAScript leaves the order to the implementation; the
  insertion order below is then one permitted outcome.)
\<close>

fun insertBy :: "('a \<Rightarrow> 'a \<Rightarrow> real) \<Rightarrow> 'a \<Rightarrow> 'a list \<Rightarrow> 'a list" where
  "insertBy cmp x [] = [x]"
| "insertBy cmp x (y # ys) = (if cmp x y \<le> 0 then x # y # ys else y # insertBy cmp x ys)"

definition sortBy :: "('a \<Rightarrow> 'a \<Rightarrow> real) \<Rightarrow> 'a list \<Rightarrow> 'a list" where
  "sortBy cmp xs = foldr (insertBy cmp) xs []"

text \<open>
  \<^verbatim>\<open>xs.slice(0, k)\<close> for a number \<open>k\<close>: \<open>k\<close> is truncated towards zero; the result is
  the first \<open>k\<close> elements, and for a negative \<open>k\<close> all but the last \<open>-k\<close>.
\<close>

definition toIntegerJS :: "real \<Rightarrow> int" where
  "toIntegerJS x = (if 0 \<le> x then \<lfloor>x\<rfloor> else \<lceil>x\<rceil>)"

definition slice0 :: "'a list \<Rightarrow> real \<Rightarrow> 'a list" where
  "slice0 xs k =
     (let r = toIntegerJS k in
      if 0 \<le> r then take (nat r) xs else take (nat (int (length xs) + r)) xs)"

text \<open>A \<^verbatim>\<open>map\<close> whose callback can throw: the first \<open>Inl\<close> ends it.\<close>

fun mapM :: "('a \<Rightarrow> error + 'b) \<Rightarrow> 'a list \<Rightarrow> error + 'b list" where
  "mapM f [] = Inr []"
| "mapM f (x # xs) =
     (case f x of
        Inl e \<Rightarrow> Inl e
      | Inr y \<Rightarrow> (case mapM f xs of Inl e \<Rightarrow> Inl e | Inr ys \<Rightarrow> Inr (y # ys)))"

text \<open>
  A loop whose body can throw: the fold stops at the first \<open>Inl\<close>, as the exception
  leaves the loop.
\<close>

fun forEachM :: "('a \<Rightarrow> 's \<Rightarrow> error + 's) \<Rightarrow> 'a list \<Rightarrow> 's \<Rightarrow> error + 's" where
  "forEachM f [] s = Inr s"
| "forEachM f (x # xs) s = (case f x s of Inl e \<Rightarrow> Inl e | Inr s' \<Rightarrow> forEachM f xs s')"

section \<open>The semantic graph (class GraphRAG)\<close>

text \<open>The metadata fields of a stored chunk that the tools read.\<close>

datatype dateField =
  Missing           \<comment> \<open>the field is absent (\<^verbatim>\<open>undefined\<close>)\<close>
| NullDate          \<comment> \<open>the field is \<^verbatim>\<open>null\<close>; \<^verbatim>\<open>new Date(null)\<close> is the epoch\<close>
| Invalid           \<comment> \<open>a value \<^verbatim>\<open>new Date\<close> cannot parse\<close>
| Valid real        \<comment> \<open>a date, as its \<^verbatim>\<open>getTime()\<close> in milliseconds\<close>

record metadata =
  md_text :: "string option"
  chapterText :: "string option"
  publishedAt :: dateField
  viewCount :: "real option"
  tags :: "string list option"

record GraphNode =
  node_id :: string
  node_content :: string
  node_embedding :: "real list option"
  node_metadata :: "metadata option"

datatype edgeType = Semantic    \<comment> \<open>the only value of \<^verbatim>\<open>type: 'semantic'\<close>\<close>

record GraphEdge =
  source :: string
  target :: string
  weight :: real
  edge_type :: edgeType

record GraphChunk =
  chunk_text :: string
  chunk_metadata :: metadata

record GraphEmbedding =
  vector :: "real list"

record GraphRAG =
  nodes :: "(string \<times> GraphNode) list"
  edges :: "GraphEdge list"
  dimension :: nat
  threshold :: real

text \<open>The constructor \<^verbatim>\<open>new GraphRAG(dimension, threshold)\<close>.\<close>

definition newGraphRAG :: "nat \<Rightarrow> real \<Rightarrow> GraphRAG" where
  "newGraphRAG d t = \<lparr>nodes = [], edges = [], dimension = d, threshold = t\<rparr>"

definition addNode :: "GraphRAG \<Rightarrow> GraphNode \<Rightarrow> error + GraphRAG" where
  "addNode g node =
     (case node_embedding node of
        None \<Rightarrow> Inl (Error ''Node must have an embedding'')
      | Some e \<Rightarrow>
          if length e \<noteq> dimension g
          then Inl (Error (''Embedding dimension must be '' @ toString (dimension g)))
          else Inr (g\<lparr>nodes := AList.update (node_id node) node (nodes g)\<rparr>))"

definition addEdge :: "GraphRAG \<Rightarrow> GraphEdge \<Rightarrow> error + GraphRAG" where
  "addEdge g edge =
     (if \<not> has (nodes g) (source edge) \<or> \<not> has (nodes g) (target edge)
      then Inl (Error ''Both source and target nodes must exist'')
      else Inr (g\<lparr>edges := edges g @
             [edge, \<lparr>source = target edge, target = source edge, weight = weight edge,
                     edge_type = edge_type edge\<rparr>]\<rparr>))"

definition getNodeCount :: "GraphRAG \<Rightarrow> nat" where
  "getNodeCount g = length (nodes g)"

definition getEdgeCount :: "GraphRAG \<Rightarrow> real" where
  "getEdgeCount g = real (length (edges g)) / 2"

record neighbor =
  nb_id :: string
  nb_weight :: real

text \<open>
  Inside the random walk the current node id is whatever \<^verbatim>\<open>selectWeightedNeighbor\<close>
  returned, which for an empty list is \<^verbatim>\<open>undefined\<close>; so a walk id is a
  \<^typ>\<open>string option\<close>, \<open>None\<close> for \<^verbatim>\<open>undefined\<close>.
\<close>

definition getNeighbors :: "GraphRAG \<Rightarrow> string option \<Rightarrow> neighbor list" where
  "getNeighbors g nodeId =
     map (\<lambda>edge. \<lparr>nb_id = target edge, nb_weight = weight edge\<rparr>)
       (filter (\<lambda>edge. Some (source edge) = nodeId) (edges g))"

text \<open>
  \<^verbatim>\<open>cosineSimilarity\<close>: one pass accumulating the dot product and the two squared
  norms, then the guarded division and the clamp. Here the numbers are reals and the
  arithmetic is exact, which is what the graph operations are stated over; the routine
  with the rounding of doubles is \<open>cosineSimilarity64\<close>, further down.
\<close>

definition cosineStep :: "real \<times> real \<Rightarrow> real \<times> real \<times> real \<Rightarrow> real \<times> real \<times> real" where
  "cosineStep ab acc =
     (case (ab, acc) of ((a, b), (dotProduct, normVec1, normVec2)) \<Rightarrow>
        (dotProduct + a * b, normVec1 + a * a, normVec2 + b * b))"

definition cosineSimilarity :: "real list option \<Rightarrow> real list option \<Rightarrow> error + real" where
  "cosineSimilarity v1 v2 =
     (case (v1, v2) of
        (Some vec1, Some vec2) \<Rightarrow>
          if length vec1 \<noteq> length vec2
          then Inl (Error (''Vector dimensions must match: vec1('' @ toString (length vec1)
                      @ '') !== vec2('' @ toString (length vec2) @ '')''))
          else
            (case fold cosineStep (zip vec1 vec2) (0, 0, 0) of
               (dotProduct, normVec1, normVec2) \<Rightarrow>
                 let magnitudeProduct = sqrt (normVec1 * normVec2) in
                 if magnitudeProduct = 0 then Inr 0
                 else Inr (max (- 1) (min 1 (dotProduct / magnitudeProduct))))
      | _ \<Rightarrow> Inl (Error ''Vectors must not be null or undefined''))"

text \<open>\<^verbatim>\<open>embeddings[i]?.vector\<close>: \<^verbatim>\<open>undefined\<close> beyond the end of the array.\<close>

definition vectorAt :: "GraphEmbedding list \<Rightarrow> nat \<Rightarrow> real list option" where
  "vectorAt embeddings i = (if i < length embeddings then Some (vector (embeddings ! i)) else None)"

definition chunkNode :: "GraphEmbedding list \<Rightarrow> nat \<times> GraphChunk \<Rightarrow> GraphNode" where
  "chunkNode embeddings ic =
     \<lparr>node_id = toString (fst ic), node_content = chunk_text (snd ic),
      node_embedding = vectorAt embeddings (fst ic),
      node_metadata = Some (chunk_metadata (snd ic))\<rparr>"

text \<open>The body of the inner loop of \<^verbatim>\<open>createGraph\<close>, for the pair \<open>(i, j)\<close>.\<close>

definition edgeStep :: "GraphEmbedding list \<Rightarrow> nat \<Rightarrow> nat \<Rightarrow> GraphRAG \<Rightarrow> error + GraphRAG" where
  "edgeStep embeddings i j g =
     (case cosineSimilarity (vectorAt embeddings i) (vectorAt embeddings j) of
        Inl e \<Rightarrow> Inl e
      | Inr similarity \<Rightarrow>
          if similarity > threshold g
          then addEdge g \<lparr>source = toString i, target = toString j, weight = similarity,
                          edge_type = Semantic\<rparr>
          else Inr g)"

definition createGraph :: "GraphRAG \<Rightarrow> GraphChunk list \<Rightarrow> GraphEmbedding list \<Rightarrow> error + GraphRAG" where
  "createGraph g chunks embeddings =
     (if chunks = [] \<or> embeddings = []
      then Inl (Error ''Chunks and embeddings arrays must not be empty'')
      else if length chunks \<noteq> length embeddings
      then Inl (Error ''Chunks and embeddings must have the same length'')
      else
        (case forEachM (\<lambda>ic g. addNode g (chunkNode embeddings ic)) (enumerate 0 chunks) g of
           Inl e \<Rightarrow> Inl e
         | Inr g1 \<Rightarrow>
             forEachM
               (\<lambda>i. forEachM (edgeStep embeddings i) [i + 1 ..< length chunks])
               [0 ..< length chunks] g1))"

text \<open>The magnitude \<open>\<parallel>v\<parallel>\<close> of a vector, for stating properties.\<close>

definition magnitude :: "real list \<Rightarrow> real" where
  "magnitude v = sqrt (sum_list (map (\<lambda>x. x * x) v))"


section \<open>The similarity routine on IEEE doubles\<close>

text \<open>
  The graph operations above use \<^const>\<open>cosineSimilarity\<close> over exact arithmetic: they
  compare the similarity with the threshold and store it. What the routine returns as a
  number depends on the rounding, overflow and underflow of JavaScript's numbers, binary64
  doubles. This section has the same routine on doubles.

  A double is \<open>NaN\<close> (\<open>QNaN\<close>), an infinity or a finite value, carried as a real; the two zeros are
  identified (the routine never divides by zero, and \<^verbatim>\<open>-0 === 0\<close>).
\<close>

datatype double = QNaN | PosInf | NegInf | Fin real

text \<open>
  Rounding of a real result to binary64, to nearest with ties to even: the result is a
  multiple of the unit in the last place of the binade of \<open>x\<close> (53 significant bits, and
  the fixed unit \<^verbatim>\<open>2^-1074\<close> below \<^verbatim>\<open>2^-1022\<close>); from \<^verbatim>\<open>2^1024 - 2^970\<close> on, halfway
  between the largest double and \<^verbatim>\<open>2^1024\<close>, it is an infinity.
\<close>

definition roundTiesToEven :: "real \<Rightarrow> int" where
  "roundTiesToEven t =
     (let f = \<lfloor>t\<rfloor>; d = t - of_int f in
      if d < 1 / 2 then f else if 1 / 2 < d then f + 1 else if even f then f else f + 1)"

definition exponentOf :: "real \<Rightarrow> int" where
  "exponentOf x = (if \<bar>x\<bar> < 1 / 2 ^ 1022 then - 1022 else \<lfloor>log 2 \<bar>x\<bar>\<rfloor>)"

definition ulpOf :: "real \<Rightarrow> real" where
  "ulpOf x = 2 powr (of_int (exponentOf x) - 52)"

definition overflowThreshold :: real where
  "overflowThreshold = 2 ^ 1024 - 2 ^ 970"

definition toDouble :: "real \<Rightarrow> double" where
  "toDouble x =
     (if overflowThreshold \<le> x then PosInf
      else if x \<le> - overflowThreshold then NegInf
      else Fin (of_int (roundTiesToEven (x / ulpOf x)) * ulpOf x))"

text \<open>
  The operations \<^verbatim>\<open>+\<close>, \<^verbatim>\<open>*\<close>, \<^verbatim>\<open>/\<close>, \<^verbatim>\<open>Math.sqrt\<close>, \<^verbatim>\<open>Math.min\<close> and \<^verbatim>\<open>Math.max\<close>
  of IEEE 754: the exact result rounded, with the rules for \<open>NaN\<close> and the infinities.
\<close>

fun addD :: "double \<Rightarrow> double \<Rightarrow> double" where
  "addD QNaN b = QNaN"
| "addD a QNaN = QNaN"
| "addD PosInf NegInf = QNaN"
| "addD NegInf PosInf = QNaN"
| "addD PosInf b = PosInf"
| "addD a PosInf = PosInf"
| "addD NegInf b = NegInf"
| "addD a NegInf = NegInf"
| "addD (Fin x) (Fin y) = toDouble (x + y)"

definition signedInf :: "real \<Rightarrow> double" where
  "signedInf s = (if s = 0 then QNaN else if 0 < s then PosInf else NegInf)"

fun mulD :: "double \<Rightarrow> double \<Rightarrow> double" where
  "mulD QNaN b = QNaN"
| "mulD a QNaN = QNaN"
| "mulD PosInf PosInf = PosInf"
| "mulD PosInf NegInf = NegInf"
| "mulD NegInf PosInf = NegInf"
| "mulD NegInf NegInf = PosInf"
| "mulD PosInf (Fin y) = signedInf y"
| "mulD NegInf (Fin y) = signedInf (- y)"
| "mulD (Fin x) PosInf = signedInf x"
| "mulD (Fin x) NegInf = signedInf (- x)"
| "mulD (Fin x) (Fin y) = toDouble (x * y)"

fun divD :: "double \<Rightarrow> double \<Rightarrow> double" where
  "divD QNaN b = QNaN"
| "divD a QNaN = QNaN"
| "divD PosInf (Fin y) = (if 0 \<le> y then PosInf else NegInf)"
| "divD NegInf (Fin y) = (if 0 \<le> y then NegInf else PosInf)"
| "divD PosInf b = QNaN"
| "divD NegInf b = QNaN"
| "divD (Fin x) PosInf = Fin 0"
| "divD (Fin x) NegInf = Fin 0"
| "divD (Fin x) (Fin y) = (if y = 0 then signedInf x else toDouble (x / y))"

fun sqrtD :: "double \<Rightarrow> double" where
  "sqrtD QNaN = QNaN"
| "sqrtD PosInf = PosInf"
| "sqrtD NegInf = QNaN"
| "sqrtD (Fin x) = (if x < 0 then QNaN else toDouble (sqrt x))"

fun minD :: "double \<Rightarrow> double \<Rightarrow> double" where
  "minD QNaN b = QNaN"
| "minD a QNaN = QNaN"
| "minD NegInf b = NegInf"
| "minD a NegInf = NegInf"
| "minD PosInf b = b"
| "minD a PosInf = a"
| "minD (Fin x) (Fin y) = Fin (min x y)"

fun maxD :: "double \<Rightarrow> double \<Rightarrow> double" where
  "maxD QNaN b = QNaN"
| "maxD a QNaN = QNaN"
| "maxD PosInf b = PosInf"
| "maxD a PosInf = PosInf"
| "maxD NegInf b = b"
| "maxD a NegInf = a"
| "maxD (Fin x) (Fin y) = Fin (max x y)"

text \<open>\<^verbatim>\<open>cosineSimilarity\<close> on doubles, statement by statement.\<close>

definition cosineStep64 ::
  "double \<times> double \<Rightarrow> double \<times> double \<times> double \<Rightarrow> double \<times> double \<times> double" where
  "cosineStep64 ab acc =
     (case (ab, acc) of ((a, b), (dotProduct, normVec1, normVec2)) \<Rightarrow>
        (addD dotProduct (mulD a b), addD normVec1 (mulD a a), addD normVec2 (mulD b b)))"

definition cosineSimilarity64 :: "double list option \<Rightarrow> double list option \<Rightarrow> error + double" where
  "cosineSimilarity64 v1 v2 =
     (case (v1, v2) of
        (Some vec1, Some vec2) \<Rightarrow>
          if length vec1 \<noteq> length vec2
          then Inl (Error (''Vector dimensions must match: vec1('' @ toString (length vec1)
                      @ '') !== vec2('' @ toString (length vec2) @ '')''))
          else
            (case fold cosineStep64 (zip vec1 vec2) (Fin 0, Fin 0, Fin 0) of
               (dotProduct, normVec1, normVec2) \<Rightarrow>
                 let magnitudeProduct = sqrtD (mulD normVec1 normVec2) in
                 if magnitudeProduct = Fin 0 then Inr (Fin 0)
                 else Inr (maxD (Fin (- 1)) (minD (Fin 1) (divD dotProduct magnitudeProduct))))
      | _ \<Rightarrow> Inl (Error ''Vectors must not be null or undefined''))"
subsection \<open>Random walk with restart\<close>

text \<open>
  \<^verbatim>\<open>Math.random()\<close> is modelled by a source \<open>rand :: nat \<Rightarrow> real\<close> and the number of
  values drawn so far: the \<open>k\<close>-th call returns \<open>rand k\<close>. Nothing is assumed of the
  values.
\<close>

text \<open>The \<^verbatim>\<open>for\<close> loop of \<^verbatim>\<open>selectWeightedNeighbor\<close>; \<open>None\<close> when it ends without returning.\<close>

fun weightedScan :: "real \<Rightarrow> neighbor list \<Rightarrow> string option" where
  "weightedScan remainingWeight [] = None"
| "weightedScan remainingWeight (n # ns) =
     (let remainingWeight' = remainingWeight - nb_weight n in
      if remainingWeight' \<le> 0 then Some (nb_id n) else weightedScan remainingWeight' ns)"

text \<open>
  \<^verbatim>\<open>selectWeightedNeighbor\<close>, given the value \<open>r\<close> of its \<^verbatim>\<open>Math.random()\<close>. The last
  line reads \<^verbatim>\<open>neighbors[neighbors.length - 1]?.id\<close>, which is \<^verbatim>\<open>undefined\<close> (\<open>None\<close>)
  for an empty list.
\<close>

definition selectWeightedNeighbor :: "real \<Rightarrow> neighbor list \<Rightarrow> string option" where
  "selectWeightedNeighbor r neighbors =
     (let totalWeight = foldl (\<lambda>sum n. sum + nb_weight n) 0 neighbors;
          remainingWeight = r * totalWeight
      in case weightedScan remainingWeight neighbors of
           Some i \<Rightarrow> Some i
         | None \<Rightarrow> (if neighbors = [] then None else Some (nb_id (last neighbors))))"

record walkState =
  visits :: "(string option \<times> nat) list"
  currentNodeId :: "string option"
  drawn :: nat

text \<open>One iteration of the loop of \<^verbatim>\<open>randomWalkWithRestart\<close>.\<close>

definition walkStep :: "GraphRAG \<Rightarrow> (nat \<Rightarrow> real) \<Rightarrow> string \<Rightarrow> real \<Rightarrow> walkState \<Rightarrow> walkState" where
  "walkStep g rand startNodeId restartProb st =
     (let cur = currentNodeId st;
          visits' = AList.update cur
                      ((case map_of (visits st) cur of None \<Rightarrow> 0 | Some c \<Rightarrow> c) + 1) (visits st)
      in if rand (drawn st) < restartProb
         then \<lparr>visits = visits', currentNodeId = Some startNodeId, drawn = drawn st + 1\<rparr>
         else
           (let neighbors = getNeighbors g cur in
            if length neighbors = 0
            then \<lparr>visits = visits', currentNodeId = Some startNodeId, drawn = drawn st + 1\<rparr>
            else \<lparr>visits = visits',
                  currentNodeId = selectWeightedNeighbor (rand (drawn st + 1)) neighbors,
                  drawn = drawn st + 2\<rparr>))"

fun walkLoop :: "GraphRAG \<Rightarrow> (nat \<Rightarrow> real) \<Rightarrow> string \<Rightarrow> real \<Rightarrow> nat \<Rightarrow> walkState \<Rightarrow> walkState" where
  "walkLoop g rand startNodeId restartProb 0 st = st"
| "walkLoop g rand startNodeId restartProb (Suc n) st =
     walkLoop g rand startNodeId restartProb n (walkStep g rand startNodeId restartProb st)"

text \<open>
  \<^verbatim>\<open>randomWalkWithRestart\<close>: the loop \<^verbatim>\<open>for (step = 0; step < steps; step++)\<close> runs
  \<open>\<lceil>steps\<rceil>\<close> times (not at all for \<open>steps \<le> 0\<close>); then the visit counts are divided
  by their total. Returns the normalised visits and the number of random values drawn.
\<close>

definition randomWalkWithRestart ::
  "GraphRAG \<Rightarrow> (nat \<Rightarrow> real) \<Rightarrow> nat \<Rightarrow> string \<Rightarrow> real \<Rightarrow> real \<Rightarrow> (string option \<times> real) list \<times> nat" where
  "randomWalkWithRestart g rand k startNodeId steps restartProb =
     (let st = walkLoop g rand startNodeId restartProb (nat \<lceil>steps\<rceil>)
                 \<lparr>visits = [], currentNodeId = Some startNodeId, drawn = k\<rparr>;
          totalVisits = foldl (\<lambda>a b. a + b) 0 (map snd (visits st))
      in (map (\<lambda>(nodeId, count). (nodeId, real count / real totalVisits)) (visits st), drawn st))"

subsection \<open>Query\<close>

record RankedNode =
  rn_id :: string
  rn_content :: string
  rn_metadata :: "metadata option"
  rn_score :: real

record queryParams =
  qp_query :: "real list"
  qp_topK :: "real option"
  qp_randomWalkSteps :: "real option"
  qp_restartProb :: "real option"

record reranked =
  rr_node :: "GraphNode option"
  rr_score :: real

text \<open>\<^verbatim>\<open>this.nodes.get(nodeId)\<close> for a walk id.\<close>

definition nodesGet :: "GraphRAG \<Rightarrow> string option \<Rightarrow> GraphNode option" where
  "nodesGet g nodeId = (case nodeId of None \<Rightarrow> None | Some i \<Rightarrow> map_of (nodes g) i)"

text \<open>The inner loop of \<^verbatim>\<open>query\<close>: one walk's scores added into \<^verbatim>\<open>rerankedNodes\<close>.\<close>

definition combineScores ::
  "GraphRAG \<Rightarrow> real \<Rightarrow> (string option \<times> real) list \<Rightarrow> (string option \<times> reranked) list
     \<Rightarrow> (string option \<times> reranked) list" where
  "combineScores g similarity walkScores rerankedNodes =
     fold (\<lambda>(nodeId, walkScore) rerankedNodes.
             let node = nodesGet g nodeId;
                 existingScore = (case map_of rerankedNodes nodeId of None \<Rightarrow> 0 | Some r \<Rightarrow> rr_score r)
             in AList.update nodeId
                  \<lparr>rr_node = node, rr_score = existingScore + similarity * walkScore\<rparr> rerankedNodes)
          walkScores rerankedNodes"

text \<open>The outer loop: one random walk per top node.\<close>

definition rerankStep ::
  "GraphRAG \<Rightarrow> (nat \<Rightarrow> real) \<Rightarrow> real \<Rightarrow> real \<Rightarrow> GraphNode \<times> real
     \<Rightarrow> (string option \<times> reranked) list \<times> nat \<Rightarrow> (string option \<times> reranked) list \<times> nat" where
  "rerankStep g rand randomWalkSteps restartProb seed acc =
     (case (seed, acc) of ((node, similarity), (rerankedNodes, k)) \<Rightarrow>
        (case randomWalkWithRestart g rand k (node_id node) randomWalkSteps restartProb of
           (walkScores, k') \<Rightarrow> (combineScores g similarity walkScores rerankedNodes, k')))"

text \<open>The final \<^verbatim>\<open>map\<close>: reading \<^verbatim>\<open>item.node.id\<close> of an absent node is a \<^verbatim>\<open>TypeError\<close>.\<close>

definition toRankedNode :: "reranked \<Rightarrow> error + RankedNode" where
  "toRankedNode item =
     (case rr_node item of
        None \<Rightarrow> Inl (TypeError ''Cannot read properties of undefined (reading 'id')'')
      | Some node \<Rightarrow>
          Inr \<lparr>rn_id = node_id node, rn_content = node_content node,
               rn_metadata = node_metadata node, rn_score = rr_score item\<rparr>)"

text \<open>
  \<^verbatim>\<open>query\<close>, with the random source \<open>rand\<close> from its \<open>k\<close>-th value on. The defaults of
  the destructured parameters are \<open>topK = 10\<close>, \<open>randomWalkSteps = 100\<close>,
  \<open>restartProb = 0.15\<close>. (The query vector is an array; the \<^verbatim>\<open>!query\<close> test never fires.)
\<close>

definition query :: "GraphRAG \<Rightarrow> (nat \<Rightarrow> real) \<Rightarrow> nat \<Rightarrow> queryParams \<Rightarrow> error + RankedNode list" where
  "query g rand k params =
     (let q = qp_query params;
          topK = (case qp_topK params of None \<Rightarrow> 10 | Some x \<Rightarrow> x);
          randomWalkSteps = (case qp_randomWalkSteps params of None \<Rightarrow> 100 | Some x \<Rightarrow> x);
          restartProb = (case qp_restartProb params of None \<Rightarrow> 15 / 100 | Some x \<Rightarrow> x)
      in if length q \<noteq> dimension g
         then Inl (Error (''Query embedding must have dimension '' @ toString (dimension g)))
         else
           (case mapM (\<lambda>node. case cosineSimilarity (Some q) (node_embedding node) of
                                 Inl e \<Rightarrow> Inl e
                               | Inr similarity \<Rightarrow> Inr (node, similarity))
                      (map snd (nodes g)) of
              Inl e \<Rightarrow> Inl e
            | Inr similarities \<Rightarrow>
                let sorted = sortBy (\<lambda>a b. snd b - snd a) similarities;
                    topNodes = slice0 sorted topK;
                    rerankedNodes =
                      fst (fold (rerankStep g rand randomWalkSteps restartProb) topNodes ([], k))
                in mapM toRankedNode
                     (slice0 (sortBy (\<lambda>a b. rr_score b - rr_score a) (map snd rerankedNodes)) topK)))"

section \<open>The filter compiler (buildFilterQuery)\<close>

text \<open>
  A filter is any JSON value. An object is the list of its entries in the order of
  \<^verbatim>\<open>Object.entries\<close>, with distinct keys.
\<close>

datatype json =
  JUndefined | JNull | JBool bool | JNum real | JStr string
| JArr "json list" | JObj "(string \<times> json) list"

text \<open>
  A query parameter: the value itself, \<^verbatim>\<open>String(value)\<close>, or the template string
  \<^verbatim>\<open>`prefix${value}suffix`\<close>.
\<close>

datatype param = PValue json | PString json | PTemplate string json string

record filterQuery =
  fq_query :: string
  fq_params :: "param list"
  fq_nextIndex :: nat

record builder =
  conditions :: "string list"
  params :: "param list"
  currentIndex :: nat

fun joinWith :: "string \<Rightarrow> string list \<Rightarrow> string" where
  "joinWith sep [] = []"
| "joinWith sep [x] = x"
| "joinWith sep (x # y # ys) = x @ sep @ joinWith sep (y # ys)"

definition placeholder :: "nat \<Rightarrow> string" where
  "placeholder i = ''$'' @ toString i"

definition jsonPathOf :: "string \<Rightarrow> string" where
  "jsonPathOf key = ''metadata->>'' @ [CHR 0x27] @ key @ [CHR 0x27]"

definition push :: "builder \<Rightarrow> string \<Rightarrow> param list \<Rightarrow> nat \<Rightarrow> builder" where
  "push b condition ps n =
     \<lparr>conditions = conditions b @ [condition], params = params b @ ps,
      currentIndex = currentIndex b + n\<rparr>"

text \<open>\<^verbatim>\<open>val[i]\<close> for an arbitrary value \<open>val\<close>.\<close>

definition jsElem :: "json \<Rightarrow> nat \<Rightarrow> error + json" where
  "jsElem val i =
     (case val of
        JArr xs \<Rightarrow> Inr (if i < length xs then xs ! i else JUndefined)
      | JStr s \<Rightarrow> Inr (if i < length s then JStr [s ! i] else JUndefined)
      | JObj kvs \<Rightarrow> Inr (case map_of kvs (toString i) of None \<Rightarrow> JUndefined | Some v \<Rightarrow> v)
      | JNull \<Rightarrow> Inl (TypeError ''Cannot read properties of null'')
      | JUndefined \<Rightarrow> Inl (TypeError ''Cannot read properties of undefined'')
      | _ \<Rightarrow> Inr JUndefined)"

text \<open>The operator names of the schema (\<^verbatim>\<open>filterOperators\<close>).\<close>

definition filterOperators :: "string list" where
  "filterOperators = [''$eq'', ''$ne'', ''$gt'', ''$gte'', ''$lt'', ''$lte'', ''$in'', ''$between'',
     ''$contains'', ''$startsWith'', ''$endsWith'']"

text \<open>The \<^verbatim>\<open>switch (op)\<close> of a field-level constraint; it has no \<^verbatim>\<open>default\<close> branch.\<close>

definition processOperator :: "string \<Rightarrow> string \<times> json \<Rightarrow> builder \<Rightarrow> error + builder" where
  "processOperator key opval b =
     (case opval of (op, val) \<Rightarrow>
        let jsonPath = jsonPathOf key; i = currentIndex b in
        if op = ''$eq'' then Inr (push b (jsonPath @ '' = '' @ placeholder i) [PString val] 1)
        else if op = ''$ne'' then Inr (push b (jsonPath @ '' != '' @ placeholder i) [PString val] 1)
        else if op = ''$gt'' then
          Inr (push b (''CAST('' @ jsonPath @ '' AS NUMERIC) > '' @ placeholder i) [PValue val] 1)
        else if op = ''$gte'' then
          Inr (push b (''CAST('' @ jsonPath @ '' AS NUMERIC) >= '' @ placeholder i) [PValue val] 1)
        else if op = ''$lt'' then
          Inr (push b (''CAST('' @ jsonPath @ '' AS NUMERIC) < '' @ placeholder i) [PValue val] 1)
        else if op = ''$lte'' then
          Inr (push b (''CAST('' @ jsonPath @ '' AS NUMERIC) <= '' @ placeholder i) [PValue val] 1)
        else if op = ''$in'' then
          (case val of
             JArr xs \<Rightarrow>
               Inr (push b
                  (jsonPath @ '' IN ('' @
                     joinWith '', '' (map (\<lambda>k. placeholder (i + k)) [0 ..< length xs]) @ '')'')
                  (map PValue xs) (length xs))
           | _ \<Rightarrow> Inl (TypeError ''val.map is not a function''))
        else if op = ''$between'' then
          (case jsElem val 0 of
             Inl e \<Rightarrow> Inl e
           | Inr lo \<Rightarrow>
               (case jsElem val 1 of
                  Inl e \<Rightarrow> Inl e
                | Inr hi \<Rightarrow>
                    Inr (push b
                      (''CAST('' @ jsonPath @ '' AS NUMERIC) BETWEEN '' @ placeholder i @ '' AND ''
                         @ placeholder (i + 1))
                      [PValue lo, PValue hi] 2)))
        else if op = ''$contains'' then
          Inr (push b (jsonPath @ '' LIKE '' @ placeholder i) [PTemplate ''%'' val ''%''] 1)
        else if op = ''$startsWith'' then
          Inr (push b (jsonPath @ '' LIKE '' @ placeholder i) [PTemplate [] val ''%''] 1)
        else if op = ''$endsWith'' then
          Inr (push b (jsonPath @ '' LIKE '' @ placeholder i) [PTemplate ''%'' val []] 1)
        else Inr b)"

text \<open>
  \<^verbatim>\<open>processFilter\<close> for a key that is none of \<^verbatim>\<open>$and\<close>, \<^verbatim>\<open>$or\<close>, \<^verbatim>\<open>$not\<close>: the
  field-level operators of an object value, or plain equality.
\<close>

definition processField :: "string \<Rightarrow> json \<Rightarrow> builder \<Rightarrow> error + builder" where
  "processField key val b =
     (case val of
        JObj ops \<Rightarrow> forEachM (processOperator key) ops b
      | _ \<Rightarrow> Inr (push b (jsonPathOf key @ '' = '' @ placeholder (currentIndex b)) [PString val] 1))"

text \<open>
  \<^verbatim>\<open>Object.entries\<close> of an array or a string: its elements under their indices. An index
  is never \<^verbatim>\<open>$and\<close>, \<^verbatim>\<open>$or\<close> or \<^verbatim>\<open>$not\<close>, so these entries go through
  \<^const>\<open>processField\<close>.
\<close>

definition indexed :: "'a list \<Rightarrow> (string \<times> 'a) list" where
  "indexed xs = map (\<lambda>(i, x). (toString i, x)) (enumerate 0 xs)"

definition finish :: "builder \<Rightarrow> filterQuery" where
  "finish b = \<lparr>fq_query = joinWith '' AND '' (conditions b), fq_params = params b,
               fq_nextIndex = currentIndex b\<rparr>"

definition absorb :: "builder \<Rightarrow> filterQuery \<Rightarrow> builder" where
  "absorb b r = b\<lparr>currentIndex := fq_nextIndex r, params := params b @ fq_params r\<rparr>"

text \<open>A size of filters under which the recursion of the compiler descends.\<close>

fun jsize :: "json \<Rightarrow> nat" where
  "jsize (JArr xs) = Suc (sum_list (map (\<lambda>x. jsize x + 2) xs))"
| "jsize (JObj kvs) = Suc (sum_list (map (\<lambda>kv. jsize (snd kv) + 2) kvs))"
| "jsize _ = 0"

lemma entriesSize_less:
  "sum_list (map (\<lambda>kv. 2 * jsize (snd kv) + 3) kvs) < 2 * jsize (JObj kvs) + 1"
  by (induction kvs) auto

lemma subsSize_less:
  "sum_list (map (\<lambda>x. 2 * jsize x + 2) xs) < 2 * jsize (JArr xs) + 2"
  by (induction xs) auto

text \<open>
  \<^verbatim>\<open>buildFilterQuery\<close> with its closure \<^verbatim>\<open>processFilter\<close>: \<open>processEntries\<close> is the
  \<^verbatim>\<open>forEach\<close> over the entries of the filter, \<open>subFilters\<close> the \<^verbatim>\<open>map\<close> over the
  operands of \<^verbatim>\<open>$and\<close> / \<^verbatim>\<open>$or\<close>, which threads \<^verbatim>\<open>currentIndex\<close> and \<^verbatim>\<open>params\<close>.
\<close>

function buildFilterQuery :: "json \<Rightarrow> nat \<Rightarrow> error + filterQuery"
  and processEntries :: "(string \<times> json) list \<Rightarrow> builder \<Rightarrow> error + builder"
  and subFilters :: "json list \<Rightarrow> builder \<Rightarrow> error + builder \<times> string list"
where
  "buildFilterQuery filterExpr paramIndex =
     (let b0 = \<lparr>conditions = [], params = [], currentIndex = paramIndex\<rparr> in
      case (case filterExpr of
              JObj kvs \<Rightarrow> processEntries kvs b0
            | JArr xs \<Rightarrow> forEachM (\<lambda>(key, val). processField key val) (indexed xs) b0
            | JStr s \<Rightarrow>
                forEachM (\<lambda>(key, val). processField key val) (indexed (map (\<lambda>c. JStr [c]) s)) b0
            | JNull \<Rightarrow> Inl (TypeError ''Cannot convert undefined or null to object'')
            | JUndefined \<Rightarrow> Inl (TypeError ''Cannot convert undefined or null to object'')
            | _ \<Rightarrow> Inr b0) of
        Inl e \<Rightarrow> Inl e
      | Inr b \<Rightarrow> Inr (finish b))"
| "processEntries [] b = Inr b"
| "processEntries (kv # rest) b =
     (case (if fst kv = ''$and'' then
              (case snd kv of
                 JArr subs \<Rightarrow>
                   (case subFilters subs b of
                      Inl e \<Rightarrow> Inl e
                    | Inr (b', andConditions) \<Rightarrow>
                        Inr (b'\<lparr>conditions := conditions b' @
                                 [''('' @ joinWith '' AND '' andConditions @ '')'']\<rparr>))
               | _ \<Rightarrow> Inl (TypeError ''value.map is not a function''))
            else if fst kv = ''$or'' then
              (case snd kv of
                 JArr subs \<Rightarrow>
                   (case subFilters subs b of
                      Inl e \<Rightarrow> Inl e
                    | Inr (b', orConditions) \<Rightarrow>
                        Inr (b'\<lparr>conditions := conditions b' @
                                 [''('' @ joinWith '' OR '' orConditions @ '')'']\<rparr>))
               | _ \<Rightarrow> Inl (TypeError ''value.map is not a function''))
            else if fst kv = ''$not'' then
              (case buildFilterQuery (snd kv) (currentIndex b) of
                 Inl e \<Rightarrow> Inl e
               | Inr r \<Rightarrow>
                   Inr ((absorb b r)\<lparr>conditions := conditions b @ [''NOT ('' @ fq_query r @ '')'']\<rparr>))
            else processField (fst kv) (snd kv) b) of
        Inl e \<Rightarrow> Inl e
      | Inr b' \<Rightarrow> processEntries rest b')"
| "subFilters [] b = Inr (b, [])"
| "subFilters (subFilter # rest) b =
     (case buildFilterQuery subFilter (currentIndex b) of
        Inl e \<Rightarrow> Inl e
      | Inr r \<Rightarrow>
          (case subFilters rest (absorb b r) of
             Inl e \<Rightarrow> Inl e
           | Inr (b', qs) \<Rightarrow> Inr (b', (''('' @ fq_query r @ '')'') # qs)))"
  by pat_completeness auto

termination
proof (relation "measure (\<lambda>x. case x of
          Inl (filterExpr, _) \<Rightarrow> 2 * jsize filterExpr + 1
        | Inr (Inl (kvs, _)) \<Rightarrow> sum_list (map (\<lambda>kv. 2 * jsize (snd kv) + 3) kvs)
        | Inr (Inr (subs, _)) \<Rightarrow> sum_list (map (\<lambda>x. 2 * jsize x + 2) subs))", goal_cases)
  case 1
  show ?case by simp
next
  case (2 filterExpr paramIndex b0 kvs)
  show ?case using entriesSize_less [of kvs] 2 by simp
next
  case (3 kv rest b subs)
  show ?case using subsSize_less [of subs] 3 by simp
next
  case (4 kv rest b subs)
  show ?case using subsSize_less [of subs] 4 by simp
next
  case (5 kv rest b)
  show ?case by simp
next
  case (6 kv rest b)
  show ?case by simp
next
  case (7 subFilter rest b)
  show ?case by simp
next
  case (8 subFilter rest b)
  show ?case by simp
qed

declare buildFilterQuery.simps [simp del]

section \<open>The external collaborators\<close>

text \<open>
  The vector store (\<^verbatim>\<open>pgVector.query\<close>), the embedding provider (\<^verbatim>\<open>embed\<close>), the
  environment variable, the clock and the random source are inputs of a call.
\<close>

record storeQuery =
  sq_indexName :: string
  sq_queryVector :: "real list"
  sq_filter :: json
  sq_topK :: real
  sq_includeVector :: bool

record queryResult =
  qr_id :: string
  qr_score :: real
  qr_metadata :: "metadata option"
  qr_vector :: "real list option"

record env =
  env_connectionString :: "string option"   \<comment> \<open>\<^verbatim>\<open>process.env.POSTGRES_CONNECTION_STRING\<close>\<close>
  env_embed :: "string \<Rightarrow> error + real list"
  env_store :: "storeQuery \<Rightarrow> error + queryResult list"
  env_now :: real                           \<comment> \<open>\<^verbatim>\<open>new Date().getTime()\<close>, in milliseconds\<close>
  env_buildStart :: real                    \<comment> \<open>the first \<^verbatim>\<open>Date.now()\<close> of a build\<close>
  env_buildEnd :: real                      \<comment> \<open>the second \<^verbatim>\<open>Date.now()\<close> of a build\<close>
  env_random :: "nat \<Rightarrow> real"
  env_numberToString :: "real \<Rightarrow> string"    \<comment> \<open>\<^verbatim>\<open>Number.prototype.toString\<close>\<close>

text \<open>\<^verbatim>\<open>result.metadata?.text || result.metadata?.chapterText || ''\<close>; an empty string is falsy.\<close>

definition textOf :: "metadata option \<Rightarrow> string" where
  "textOf md =
     (case md of
        None \<Rightarrow> []
      | Some m \<Rightarrow>
          (case md_text m of
             Some t \<Rightarrow> if t \<noteq> [] then t else (case chapterText m of Some c \<Rightarrow> c | None \<Rightarrow> [])
           | None \<Rightarrow> (case chapterText m of Some c \<Rightarrow> c | None \<Rightarrow> [])))"

text \<open>The empty object \<^verbatim>\<open>{}\<close> as metadata.\<close>

definition noMetadata :: metadata where
  "noMetadata = \<lparr>md_text = None, chapterText = None, publishedAt = Missing, viewCount = None,
                  tags = None\<rparr>"

section \<open>The hybrid scorer (calculateHybridScore)\<close>

text \<open>A number that may be \<open>NaN\<close>; arithmetic and \<^verbatim>\<open>Math.max\<close> propagate \<open>NaN\<close>.\<close>

datatype jsnum = NaN | Num real

definition jsLift :: "(real \<Rightarrow> real \<Rightarrow> real) \<Rightarrow> jsnum \<Rightarrow> jsnum \<Rightarrow> jsnum" where
  "jsLift f a b = (case (a, b) of (Num x, Num y) \<Rightarrow> Num (f x y) | _ \<Rightarrow> NaN)"

definition jsAdd :: "jsnum \<Rightarrow> jsnum \<Rightarrow> jsnum" where
  "jsAdd = jsLift (\<lambda>x y. x + y)"

definition jsSub :: "jsnum \<Rightarrow> jsnum \<Rightarrow> jsnum" where
  "jsSub = jsLift (\<lambda>x y. x - y)"

definition jsMul :: "jsnum \<Rightarrow> jsnum \<Rightarrow> jsnum" where
  "jsMul = jsLift (\<lambda>x y. x * y)"

text \<open>Division, used with non-zero constant divisors only.\<close>

definition jsDiv :: "jsnum \<Rightarrow> jsnum \<Rightarrow> jsnum" where
  "jsDiv = jsLift (\<lambda>x y. x / y)"

definition mathMax :: "jsnum \<Rightarrow> jsnum \<Rightarrow> jsnum" where
  "mathMax = jsLift max"

text \<open>The comparisons \<^verbatim>\<open><\<close> and \<^verbatim>\<open><=\<close>: false when an operand is \<open>NaN\<close>.\<close>

definition jsLt :: "jsnum \<Rightarrow> jsnum \<Rightarrow> bool" where
  "jsLt a b = (case (a, b) of (Num x, Num y) \<Rightarrow> x < y | _ \<Rightarrow> False)"

definition jsLe :: "jsnum \<Rightarrow> jsnum \<Rightarrow> bool" where
  "jsLe a b = (case (a, b) of (Num x, Num y) \<Rightarrow> x \<le> y | _ \<Rightarrow> False)"

record weights =
  w_vector :: real
  w_freshness :: real
  w_popularity :: real
  w_tags :: real

text \<open>\<^verbatim>\<open>new Date(metadata.publishedAt).getTime()\<close>.\<close>

definition publishedTime :: "dateField \<Rightarrow> jsnum" where
  "publishedTime d =
     (case d of Missing \<Rightarrow> NaN | NullDate \<Rightarrow> Num 0 | Invalid \<Rightarrow> NaN | Valid t \<Rightarrow> Num t)"

definition daysSincePublished :: "real \<Rightarrow> metadata \<Rightarrow> jsnum" where
  "daysSincePublished now md =
     jsDiv (jsSub (Num now) (publishedTime (publishedAt md))) (Num (1000 * 60 * 60 * 24))"

definition freshnessScore :: "real \<Rightarrow> metadata \<Rightarrow> jsnum" where
  "freshnessScore now md =
     mathMax (Num 0) (jsSub (Num 1) (jsDiv (daysSincePublished now md) (Num 365)))"

definition popularityScore :: "metadata \<Rightarrow> real" where
  "popularityScore md =
     (let viewCount = (case viewCount md of None \<Rightarrow> 0 | Some v \<Rightarrow> v) in
      if viewCount > 0 then min 1 (log 10 (viewCount + 1) / 6) else 0)"

text \<open>\<^verbatim>\<open>toLowerCase\<close> on ASCII letters; \<^verbatim>\<open>split(/\s+/)\<close> on ASCII white space.\<close>

definition toLowerChar :: "char \<Rightarrow> char" where
  "toLowerChar c =
     (let n = (of_char c :: nat) in if 65 \<le> n \<and> n \<le> 90 then char_of (n + 32) else c)"

definition toLowerCase :: "string \<Rightarrow> string" where
  "toLowerCase s = map toLowerChar s"

definition isSpace :: "char \<Rightarrow> bool" where
  "isSpace c = ((of_char c :: nat) \<in> {9, 10, 11, 12, 13, 32})"

text \<open>
  Splitting at every maximal run of white space; a leading or trailing run leaves an
  empty first or last word, and the empty string gives one empty word.
\<close>

function splitSpaces :: "string \<Rightarrow> string list" where
  "splitSpaces s =
     (let word = takeWhile (\<lambda>c. \<not> isSpace c) s;
          rest = dropWhile (\<lambda>c. \<not> isSpace c) s
      in if rest = [] then [word] else word # splitSpaces (dropWhile isSpace rest))"
  by pat_completeness auto

termination
proof (relation "measure length", goal_cases)
  case 1
  show ?case by simp
next
  case (2 s word rest)
  let ?r = "dropWhile (\<lambda>c. \<not> isSpace c) s"
  from 2 have ne: "?r \<noteq> []" by simp
  then have "isSpace (hd ?r)"
    using hd_dropWhile [of "\<lambda>c. \<not> isSpace c" s] by simp
  then have eq: "dropWhile isSpace ?r = dropWhile isSpace (tl ?r)"
    using ne by (cases ?r) simp_all
  have "length (dropWhile isSpace ?r) = length (dropWhile isSpace (tl ?r))"
    by (simp only: eq)
  also have "\<dots> \<le> length (tl ?r)"
    by (rule length_dropWhile_le)
  also have "\<dots> < length ?r"
    using ne by (cases ?r) simp_all
  also have "\<dots> \<le> length s"
    by (rule length_dropWhile_le)
  finally have "length (dropWhile isSpace ?r) < length s" .
  with 2 show ?case by simp
qed

declare splitSpaces.simps [simp del]

text \<open>\<^verbatim>\<open>a.includes(b)\<close>: \<open>b\<close> occurs in \<open>a\<close> as a contiguous substring.\<close>

definition stringIncludes :: "string \<Rightarrow> string \<Rightarrow> bool" where
  "stringIncludes a b = sublist b a"

definition tagScore :: "string \<Rightarrow> metadata \<Rightarrow> real" where
  "tagScore queryText md =
     (let queryWords = splitSpaces (toLowerCase queryText);
          tagList = map toLowerCase (case tags md of None \<Rightarrow> [] | Some ts \<Rightarrow> ts);
          tagMatches = length (filter (\<lambda>word. list_ex (\<lambda>tag. stringIncludes tag word \<or> stringIncludes word tag) tagList)
                                 queryWords)
      in if length queryWords > 0 then real tagMatches / real (length queryWords) else 0)"

text \<open>\<^verbatim>\<open>calculateHybridScore\<close>, with \<open>now\<close> the value of its \<^verbatim>\<open>new Date()\<close>.\<close>

definition calculateHybridScore :: "real \<Rightarrow> real \<Rightarrow> metadata \<Rightarrow> string \<Rightarrow> weights \<Rightarrow> jsnum" where
  "calculateHybridScore now vectorScore md queryText w =
     jsAdd (jsAdd (jsAdd (Num (w_vector w * vectorScore))
                         (jsMul (Num (w_freshness w)) (freshnessScore now md)))
                  (Num (w_popularity w * popularityScore md)))
           (Num (w_tags w * tagScore queryText md))"

text \<open>The four signals of the score and their weights, by name.\<close>

datatype signal = VectorSimilarity | Freshness | Popularity | TagRelevance

definition weightOf :: "weights \<Rightarrow> signal \<Rightarrow> real" where
  "weightOf w s =
     (case s of VectorSimilarity \<Rightarrow> w_vector w | Freshness \<Rightarrow> w_freshness w
      | Popularity \<Rightarrow> w_popularity w | TagRelevance \<Rightarrow> w_tags w)"

definition signalValue :: "real \<Rightarrow> real \<Rightarrow> metadata \<Rightarrow> string \<Rightarrow> signal \<Rightarrow> jsnum" where
  "signalValue now vectorScore md queryText s =
     (case s of VectorSimilarity \<Rightarrow> Num vectorScore | Freshness \<Rightarrow> freshnessScore now md
      | Popularity \<Rightarrow> Num (popularityScore md) | TagRelevance \<Rightarrow> Num (tagScore queryText md))"

section \<open>The hybrid vector query tool\<close>

record hybridContext =
  hc_queryText :: string
  hc_indexName :: string
  hc_topK :: "real option"
  hc_filter :: "json option"
  hc_scoringWeights :: "weights option"
  hc_includeScore :: "bool option"

record hybridSource =
  hs_id :: string
  hs_score :: real
  hs_hybridScore :: "jsnum option"
  hs_metadata :: "metadata option"
  hs_text :: string
  hs_matchedFilters :: "string list option"

record hybridQueryMetadata =
  qm_indexName :: string
  qm_totalResults :: nat
  qm_filtersApplied :: nat
  qm_scoringMethod :: string

record hybridOutput =
  ho_relevantContext :: "metadata option list"
  ho_sources :: "hybridSource list"
  ho_queryMetadata :: hybridQueryMetadata

definition defaultWeights :: weights where
  "defaultWeights = \<lparr>w_vector = 6 / 10, w_freshness = 2 / 10, w_popularity = 15 / 100, w_tags = 5 / 100\<rparr>"

text \<open>Truthiness of a JSON value, and \<^verbatim>\<open>Object.keys\<close> of one that is not \<^verbatim>\<open>null\<close>.\<close>

definition truthy :: "json \<Rightarrow> bool" where
  "truthy j =
     (case j of JUndefined \<Rightarrow> False | JNull \<Rightarrow> False | JBool b \<Rightarrow> b | JNum x \<Rightarrow> x \<noteq> 0
      | JStr s \<Rightarrow> s \<noteq> [] | _ \<Rightarrow> True)"

definition objectKeys :: "json \<Rightarrow> string list" where
  "objectKeys j =
     (case j of JObj kvs \<Rightarrow> map fst kvs | JArr xs \<Rightarrow> map fst (indexed xs)
      | JStr s \<Rightarrow> map fst (indexed s) | _ \<Rightarrow> [])"

text \<open>
  The filter handed to the store and the count of applied filters; the compiled
  query only decides whether the filter is passed on.
\<close>

definition filterStage :: "json option \<Rightarrow> error + json \<times> nat" where
  "filterStage flt =
     (case flt of
        None \<Rightarrow> Inr (JObj [], 0)
      | Some f \<Rightarrow>
          if \<not> truthy f then Inr (JObj [], 0)
          else
            (case buildFilterQuery f 1 of
               Inl e \<Rightarrow> Inl e
             | Inr filterResult \<Rightarrow>
                 if fq_query filterResult \<noteq> [] then Inr (f, length (objectKeys f))
                 else Inr (JObj [], 0)))"

text \<open>The callback of \<^verbatim>\<open>results.map\<close>: a result with its hybrid score.\<close>

definition scoreResult :: "real \<Rightarrow> string \<Rightarrow> weights \<Rightarrow> queryResult \<Rightarrow> error + queryResult \<times> jsnum" where
  "scoreResult now queryText w result =
     (case qr_metadata result of
        None \<Rightarrow> Inl (TypeError ''Cannot read properties of undefined (reading 'publishedAt')'')
      | Some md \<Rightarrow> Inr (result, calculateHybridScore now (qr_score result) md queryText w))"

text \<open>
  The comparator \<^verbatim>\<open>(a, b) => b.hybridScore - a.hybridScore\<close>; \<^verbatim>\<open>sort\<close> reads a \<open>NaN\<close>
  result as \<open>0\<close>.
\<close>

definition byHybridScore :: "queryResult \<times> jsnum \<Rightarrow> queryResult \<times> jsnum \<Rightarrow> real" where
  "byHybridScore a b = (case jsSub (snd b) (snd a) of NaN \<Rightarrow> 0 | Num d \<Rightarrow> d)"

definition formatSource :: "bool \<Rightarrow> json option \<Rightarrow> queryResult \<times> jsnum \<Rightarrow> hybridSource" where
  "formatSource includeScore flt r =
     \<lparr>hs_id = qr_id (fst r),
      hs_score = (if includeScore then qr_score (fst r) else 0),
      hs_hybridScore = (if includeScore then Some (snd r) else None),
      hs_metadata = qr_metadata (fst r),
      hs_text = textOf (qr_metadata (fst r)),
      hs_matchedFilters =
        (case flt of None \<Rightarrow> None | Some f \<Rightarrow> if truthy f then Some (objectKeys f) else None)\<rparr>"

text \<open>The store request of the hybrid tool.\<close>

definition hybridStoreQuery :: "hybridContext \<Rightarrow> real list \<Rightarrow> json \<Rightarrow> storeQuery" where
  "hybridStoreQuery ctx embedding filterConditions =
     \<lparr>sq_indexName = hc_indexName ctx, sq_queryVector = embedding, sq_filter = filterConditions,
      sq_topK = (case hc_topK ctx of None \<Rightarrow> 10 | Some k \<Rightarrow> k) * 2, sq_includeVector = False\<rparr>"

text \<open>
  \<^verbatim>\<open>youtubeHybridVectorQueryTool.execute\<close>. The \<^verbatim>\<open>catch\<close> block logs and rethrows, so
  every error is returned as it is. All candidates are scored with the same \<open>now\<close>.
\<close>

definition hybridExecute :: "env \<Rightarrow> hybridContext \<Rightarrow> error + hybridOutput" where
  "hybridExecute e ctx =
     (let queryText = hc_queryText ctx;
          topK = (case hc_topK ctx of None \<Rightarrow> 10 | Some k \<Rightarrow> k);
          scoringWeights = (case hc_scoringWeights ctx of None \<Rightarrow> defaultWeights | Some w \<Rightarrow> w);
          includeScore = (case hc_includeScore ctx of None \<Rightarrow> True | Some b \<Rightarrow> b)
      in case env_connectionString e of
           None \<Rightarrow> Inl (Error ''POSTGRES_CONNECTION_STRING is not set'')
         | Some connectionString \<Rightarrow>
             if connectionString = [] then Inl (Error ''POSTGRES_CONNECTION_STRING is not set'')
             else
               (case env_embed e queryText of
                  Inl err \<Rightarrow> Inl err
                | Inr embedding \<Rightarrow>
                    (case filterStage (hc_filter ctx) of
                       Inl err \<Rightarrow> Inl err
                     | Inr (filterConditions, appliedFilters) \<Rightarrow>
                         (case env_store e (hybridStoreQuery ctx embedding filterConditions) of
                            Inl err \<Rightarrow> Inl err
                          | Inr results \<Rightarrow>
                              (case mapM (scoreResult (env_now e) queryText scoringWeights) results of
                                 Inl err \<Rightarrow> Inl err
                               | Inr scoredResults \<Rightarrow>
                                   let topResults = slice0 (sortBy byHybridScore scoredResults) topK;
                                       sources = map (formatSource includeScore (hc_filter ctx)) topResults
                                   in Inr \<lparr>ho_relevantContext = map (\<lambda>r. qr_metadata (fst r)) topResults,
                                           ho_sources = sources,
                                           ho_queryMetadata =
                                             \<lparr>qm_indexName = hc_indexName ctx,
                                              qm_totalResults = length sources,
                                              qm_filtersApplied = appliedFilters,
                                              qm_scoringMethod = ''hybrid''\<rparr>\<rparr>)))))"

section \<open>The GraphRAG tool and its graph cache\<close>

record GraphCache =
  gc_graph :: GraphRAG
  gc_indexName :: string
  gc_createdAt :: real
  gc_nodeCount :: nat

text \<open>\<^verbatim>\<open>CACHE_TTL_MS = 30 * 60 * 1000\<close>: thirty minutes.\<close>

definition CACHE_TTL_MS :: real where
  "CACHE_TTL_MS = 30 * 60 * 1000"

record graphOptions =
  go_randomWalkSteps :: "real option"
  go_restartProb :: "real option"
  go_threshold :: "real option"
  go_maxGraphNodes :: "real option"
  go_rebuildGraph :: "bool option"

record graphContext =
  gx_queryText :: string
  gx_indexName :: string
  gx_topK :: "real option"
  gx_filter :: "json option"
  gx_graphOptions :: "graphOptions option"

record graphSource =
  gs_id :: string
  gs_score :: real
  gs_graphScore :: real
  gs_metadata :: metadata
  gs_text :: string

record graphStats =
  st_nodeCount :: nat
  st_edgeCount :: real
  st_cacheHit :: bool
  st_buildTimeMs :: "real option"

record graphOutput =
  out_relevantContext :: "metadata list"
  out_sources :: "graphSource list"
  out_graphStats :: graphStats

text \<open>The options with their defaults (\<^verbatim>\<open>graphOptions?.x ?? default\<close>).\<close>

definition optionOr :: "'c \<Rightarrow> (graphOptions \<Rightarrow> 'c option) \<Rightarrow> graphContext \<Rightarrow> 'c" where
  "optionOr d field ctx =
     (case gx_graphOptions ctx of
        None \<Rightarrow> d
      | Some opts \<Rightarrow> (case field opts of None \<Rightarrow> d | Some v \<Rightarrow> v))"

definition thresholdOf :: "graphContext \<Rightarrow> real" where
  "thresholdOf ctx = optionOr (7 / 10) go_threshold ctx"

definition rebuildGraphOf :: "graphContext \<Rightarrow> bool" where
  "rebuildGraphOf ctx = optionOr False go_rebuildGraph ctx"

definition maxGraphNodesOf :: "graphContext \<Rightarrow> real" where
  "maxGraphNodesOf ctx = optionOr 500 go_maxGraphNodes ctx"

text \<open>The key \<^verbatim>\<open>`${indexName}_${threshold}`\<close>.\<close>

definition cacheKey :: "env \<Rightarrow> graphContext \<Rightarrow> string" where
  "cacheKey e ctx = gx_indexName ctx @ ''_'' @ env_numberToString e (thresholdOf ctx)"

definition isCacheValid :: "GraphCache option \<Rightarrow> bool \<Rightarrow> real \<Rightarrow> bool" where
  "isCacheValid cachedGraph rebuildGraph now =
     (case cachedGraph of
        None \<Rightarrow> False
      | Some c \<Rightarrow> \<not> rebuildGraph \<and> now - gc_createdAt c < CACHE_TTL_MS)"

text \<open>The early return of a build that finds no candidate.\<close>

definition emptyOutput :: graphOutput where
  "emptyOutput =
     \<lparr>out_relevantContext = [], out_sources = [],
      out_graphStats = \<lparr>st_nodeCount = 0, st_edgeCount = 0, st_cacheHit = False,
                        st_buildTimeMs = Some 0\<rparr>\<rparr>"

definition graphStoreQuery :: "graphContext \<Rightarrow> real list \<Rightarrow> storeQuery" where
  "graphStoreQuery ctx queryEmbedding =
     \<lparr>sq_indexName = gx_indexName ctx, sq_queryVector = queryEmbedding,
      sq_filter = (case gx_filter ctx of None \<Rightarrow> JUndefined | Some f \<Rightarrow> f),
      sq_topK = maxGraphNodesOf ctx, sq_includeVector = True\<rparr>"

definition resultChunk :: "queryResult \<Rightarrow> GraphChunk" where
  "resultChunk result =
     \<lparr>chunk_text = textOf (qr_metadata result),
      chunk_metadata = (case qr_metadata result of None \<Rightarrow> noMetadata | Some m \<Rightarrow> m)\<rparr>"

definition resultEmbedding :: "queryResult \<Rightarrow> GraphEmbedding" where
  "resultEmbedding result = \<lparr>vector = (case qr_vector result of None \<Rightarrow> [] | Some v \<Rightarrow> v)\<rparr>"

text \<open>
  How the cache stage of \<^verbatim>\<open>execute\<close> ends: with the early return, or with the graph
  to query, \<^verbatim>\<open>cacheHit\<close> and \<^verbatim>\<open>buildTimeMs\<close>.
\<close>

datatype graphLookup =
  EarlyReturn graphOutput
| Proceed GraphRAG bool "real option"

text \<open>
  The cache stage of \<^verbatim>\<open>youtubeGraphRAGTool.execute\<close> (from \<^verbatim>\<open>// Check cache\<close> to the
  end of the \<^verbatim>\<open>else\<close> branch), on the module-level \<^verbatim>\<open>graphCache\<close> map. It returns the
  map as it is afterwards.
\<close>

definition cacheStage ::
  "env \<Rightarrow> (string \<times> GraphCache) list \<Rightarrow> graphContext \<Rightarrow> real list
     \<Rightarrow> (error + graphLookup) \<times> (string \<times> GraphCache) list" where
  "cacheStage e graphCache ctx queryEmbedding =
     (let key = cacheKey e ctx;
          now = env_now e;
          cachedGraph = map_of graphCache key
      in if isCacheValid cachedGraph (rebuildGraphOf ctx) now
         then (case cachedGraph of
                 Some c \<Rightarrow> (Inr (Proceed (gc_graph c) True None), graphCache)
               | None \<Rightarrow> (Inl (TypeError ''cachedGraph is undefined''), graphCache))
         else
           (case env_store e (graphStoreQuery ctx queryEmbedding) of
              Inl err \<Rightarrow> (Inl err, graphCache)
            | Inr graphResults \<Rightarrow>
                if length graphResults = 0 then (Inr (EarlyReturn emptyOutput), graphCache)
                else
                  (let chunks = map resultChunk graphResults;
                       embeddings = map resultEmbedding graphResults
                   in case createGraph (newGraphRAG 1536 (thresholdOf ctx)) chunks embeddings of
                        Inl err \<Rightarrow> (Inl err, graphCache)
                      | Inr graphRAG \<Rightarrow>
                          (Inr (Proceed graphRAG False (Some (env_buildEnd e - env_buildStart e))),
                           AList.update key
                             \<lparr>gc_graph = graphRAG, gc_indexName = gx_indexName ctx,
                              gc_createdAt = now, gc_nodeCount = getNodeCount graphRAG\<rparr>
                             graphCache))))"

definition rankedSource :: "RankedNode \<Rightarrow> graphSource" where
  "rankedSource result =
     \<lparr>gs_id = rn_id result, gs_score = rn_score result, gs_graphScore = rn_score result,
      gs_metadata = (case rn_metadata result of None \<Rightarrow> noMetadata | Some m \<Rightarrow> m),
      gs_text = rn_content result\<rparr>"

text \<open>
  \<^verbatim>\<open>youtubeGraphRAGTool.execute\<close> as a step on the cache: the result of the call and
  the cache afterwards. The \<^verbatim>\<open>catch\<close> block logs and rethrows.
\<close>

definition execute ::
  "env \<Rightarrow> (string \<times> GraphCache) list \<Rightarrow> graphContext
     \<Rightarrow> (error + graphOutput) \<times> (string \<times> GraphCache) list" where
  "execute e graphCache ctx =
     (case env_connectionString e of
        None \<Rightarrow> (Inl (Error ''POSTGRES_CONNECTION_STRING is not set''), graphCache)
      | Some connectionString \<Rightarrow>
          if connectionString = []
          then (Inl (Error ''POSTGRES_CONNECTION_STRING is not set''), graphCache)
          else
            (case env_embed e (gx_queryText ctx) of
               Inl err \<Rightarrow> (Inl err, graphCache)
             | Inr queryEmbedding \<Rightarrow>
                 (case cacheStage e graphCache ctx queryEmbedding of
                    (Inl err, graphCache') \<Rightarrow> (Inl err, graphCache')
                  | (Inr (EarlyReturn out), graphCache') \<Rightarrow> (Inr out, graphCache')
                  | (Inr (Proceed graphRAG cacheHit buildTimeMs), graphCache') \<Rightarrow>
                      (case query graphRAG (env_random e) 0
                              \<lparr>qp_query = queryEmbedding,
                               qp_topK = Some (case gx_topK ctx of None \<Rightarrow> 10 | Some k \<Rightarrow> k),
                               qp_randomWalkSteps = Some (optionOr 100 go_randomWalkSteps ctx),
                               qp_restartProb = Some (optionOr (15 / 100) go_restartProb ctx)\<rparr> of
                         Inl err \<Rightarrow> (Inl err, graphCache')
                       | Inr rerankedResults \<Rightarrow>
                           (Inr \<lparr>out_relevantContext =
                                   map (\<lambda>result. case rn_metadata result of
                                                    None \<Rightarrow> noMetadata | Some m \<Rightarrow> m)
                                       rerankedResults,
                                 out_sources = map rankedSource rerankedResults,
                                 out_graphStats =
                                   \<lparr>st_nodeCount = getNodeCount graphRAG,
                                    st_edgeCount = getEdgeCount graphRAG,
                                    st_cacheHit = cacheHit,
                                    st_buildTimeMs = buildTimeMs\<rparr>\<rparr>,
                            graphCache')))))"

text \<open>\<^verbatim>\<open>clearGraphCache\<close>: drop the keys that start with the index name, or all keys.\<close>

definition clearGraphCache :: "string option \<Rightarrow> (string \<times> GraphCache) list \<Rightarrow> (string \<times> GraphCache) list" where
  "clearGraphCache indexName graphCache =
     (case indexName of
        None \<Rightarrow> []
      | Some n \<Rightarrow> if n = [] then [] else filter (\<lambda>kv. \<not> prefix n (fst kv)) graphCache)"

section \<open>Notions used to state and prove the properties\<close>

text \<open>The value of a decimal digit, to read \<^const>\<open>toString\<close> back.\<close>

definition digitVal :: "char \<Rightarrow> nat" where
  "digitVal c = (of_char c :: nat) - 48"

text \<open>The edges \<^verbatim>\<open>createGraph\<close> adds: per pair, per row of the outer loop, and in all.\<close>

definition mkEdge :: "nat \<Rightarrow> nat \<Rightarrow> real \<Rightarrow> GraphEdge" where
  "mkEdge i j s = \<lparr>source = toString i, target = toString j, weight = s, edge_type = Semantic\<rparr>"

definition pairEdges :: "GraphEmbedding list \<Rightarrow> real \<Rightarrow> nat \<Rightarrow> nat \<Rightarrow> GraphEdge list" where
  "pairEdges embeddings t i j =
     (case cosineSimilarity (vectorAt embeddings i) (vectorAt embeddings j) of
        Inl e \<Rightarrow> []
      | Inr s \<Rightarrow> if s > t then [mkEdge i j s, mkEdge j i s] else [])"

definition rowEdges :: "GraphEmbedding list \<Rightarrow> real \<Rightarrow> nat \<Rightarrow> nat \<Rightarrow> GraphEdge list" where
  "rowEdges embeddings t n i = concat (map (pairEdges embeddings t i) [i + 1 ..< n])"

definition allEdges :: "GraphEmbedding list \<Rightarrow> real \<Rightarrow> nat \<Rightarrow> GraphEdge list" where
  "allEdges embeddings t n = concat (map (rowEdges embeddings t n) [0 ..< n])"

definition endpoints :: "GraphEdge \<Rightarrow> string \<times> string" where
  "endpoints e = (source e, target e)"

text \<open>Example data.\<close>

definition exampleChunks :: "GraphChunk list" where
  "exampleChunks =
     [\<lparr>chunk_text = ''a'', chunk_metadata = noMetadata\<rparr>,
      \<lparr>chunk_text = ''b'', chunk_metadata = noMetadata\<rparr>,
      \<lparr>chunk_text = ''c'', chunk_metadata = noMetadata\<rparr>]"

definition exampleEmbeddings :: "GraphEmbedding list" where
  "exampleEmbeddings = [\<lparr>vector = [1, 0]\<rparr>, \<lparr>vector = [1, 0]\<rparr>, \<lparr>vector = [0, 1]\<rparr>]"

text \<open>
  Every edge joins nodes of the graph: \<^verbatim>\<open>addEdge\<close> checks it on insertion, and nodes
  are never removed.
\<close>

definition edgesWithinNodes :: "GraphRAG \<Rightarrow> bool" where
  "edgesWithinNodes g =
     list_all (\<lambda>e. has (nodes g) (source e) \<and> has (nodes g) (target e)) (edges g)"

text \<open>A walk id that is a node id of the graph.\<close>

definition isNodeId :: "GraphRAG \<Rightarrow> string option \<Rightarrow> bool" where
  "isNodeId g i = (case i of None \<Rightarrow> False | Some s \<Rightarrow> has (nodes g) s)"

definition exampleNode :: "string \<Rightarrow> real list \<Rightarrow> GraphNode" where
  "exampleNode i v = \<lparr>node_id = i, node_content = ''text'', node_embedding = Some v,
                      node_metadata = Some noMetadata\<rparr>"

definition exampleGraph :: GraphRAG where
  "exampleGraph =
     \<lparr>nodes = [(''0'', exampleNode ''0'' [1, 0]), (''1'', exampleNode ''1'' [1, 0])],
      edges = [\<lparr>source = ''0'', target = ''1'', weight = 1, edge_type = Semantic\<rparr>,
               \<lparr>source = ''1'', target = ''0'', weight = 1, edge_type = Semantic\<rparr>],
      dimension = 2, threshold = 7 / 10\<rparr>"

text \<open>
  Every node is stored under its own id and has an embedding of the graph's dimension:
  \<^verbatim>\<open>addNode\<close> checks the embedding and stores the node under \<^verbatim>\<open>node.id\<close>.
\<close>

definition nodesWellFormed :: "GraphRAG \<Rightarrow> bool" where
  "nodesWellFormed g =
     list_all (\<lambda>kn. node_id (snd kn) = fst kn \<and>
                 map_option length (node_embedding (snd kn)) = Some (dimension g))
       (nodes g)"

definition exampleCtx :: graphContext where
  "exampleCtx = \<lparr>gx_queryText = ''cats'', gx_indexName = ''videos'', gx_topK = None,
                  gx_filter = None, gx_graphOptions = None\<rparr>"

definition exampleRows :: "queryResult list" where
  "exampleRows = [\<lparr>qr_id = ''a'', qr_score = 9 / 10, qr_metadata = Some noMetadata,
                    qr_vector = Some (replicate 1536 1)\<rparr>]"

text \<open>An environment whose store answers every query with \<open>rows\<close>, at time \<open>now\<close>.\<close>

definition exampleEnv :: "queryResult list \<Rightarrow> real \<Rightarrow> env" where
  "exampleEnv rows now =
     \<lparr>env_connectionString = Some ''postgres://db'',
      env_embed = (\<lambda>_. Inr (replicate 1536 1)),
      env_store = (\<lambda>_. Inr rows),
      env_now = now, env_buildStart = now, env_buildEnd = now + 5,
      env_random = (\<lambda>_. 1 / 2),
      env_numberToString = (\<lambda>_. ''0.7'')\<rparr>"

text \<open>The cache entry \<^verbatim>\<open>execute\<close> stores for a graph built at time \<open>now\<close>.\<close>

definition cacheEntry :: "GraphRAG \<Rightarrow> graphContext \<Rightarrow> real \<Rightarrow> GraphCache" where
  "cacheEntry g ctx now =
     \<lparr>gc_graph = g, gc_indexName = gx_indexName ctx, gc_createdAt = now,
      gc_nodeCount = getNodeCount g\<rparr>"

text \<open>The graph \<^verbatim>\<open>execute\<close> builds from the rows of the store.\<close>

definition buildGraph :: "graphContext \<Rightarrow> queryResult list \<Rightarrow> error + GraphRAG" where
  "buildGraph ctx rows =
     createGraph (newGraphRAG 1536 (thresholdOf ctx)) (map resultChunk rows) (map resultEmbedding rows)"

text \<open>A row the store returns without its vector.\<close>

definition exampleBadRows :: "queryResult list" where
  "exampleBadRows = [\<lparr>qr_id = ''a'', qr_score = 9 / 10, qr_metadata = None, qr_vector = None\<rparr>]"

definition exampleMetadata :: metadata where
  "exampleMetadata = \<lparr>md_text = Some ''a video about cats'', chapterText = None,
                       publishedAt = Valid 0, viewCount = Some 999, tags = Some [''cats'']\<rparr>"

definition negativeVectorWeight :: weights where
  "negativeVectorWeight = \<lparr>w_vector = - 1, w_freshness = 0, w_popularity = 0, w_tags = 0\<rparr>"

text \<open>The parameters of the hybrid tool with their defaults.\<close>

definition topKOf :: "hybridContext \<Rightarrow> real" where
  "topKOf ctx = (case hc_topK ctx of None \<Rightarrow> 10 | Some k \<Rightarrow> k)"

definition weightsOf :: "hybridContext \<Rightarrow> weights" where
  "weightsOf ctx = (case hc_scoringWeights ctx of None \<Rightarrow> defaultWeights | Some w \<Rightarrow> w)"

definition includeScoreOf :: "hybridContext \<Rightarrow> bool" where
  "includeScoreOf ctx = (case hc_includeScore ctx of None \<Rightarrow> True | Some b \<Rightarrow> b)"

text \<open>The rows of the store with their hybrid scores, and the rows the tool keeps.\<close>

definition rescored :: "env \<Rightarrow> hybridContext \<Rightarrow> queryResult list \<Rightarrow> (queryResult \<times> jsnum) list" where
  "rescored e ctx results =
     map (\<lambda>r. (r, calculateHybridScore (env_now e) (qr_score r)
                     (case qr_metadata r of None \<Rightarrow> noMetadata | Some md \<Rightarrow> md)
                     (hc_queryText ctx) (weightsOf ctx)))
         results"

definition topResults :: "env \<Rightarrow> hybridContext \<Rightarrow> queryResult list \<Rightarrow> (queryResult \<times> jsnum) list" where
  "topResults e ctx results = slice0 (sortBy byHybridScore (rescored e ctx results)) (topKOf ctx)"

text \<open>The ids of the sources of a successful call.\<close>

definition sourceIds :: "error + hybridOutput \<Rightarrow> string list option" where
  "sourceIds r = (case r of Inl err \<Rightarrow> None | Inr out \<Rightarrow> Some (map hs_id (ho_sources out)))"

definition exampleHybridCtx :: "real \<Rightarrow> hybridContext" where
  "exampleHybridCtx k = \<lparr>hc_queryText = ''cats'', hc_indexName = ''videos'', hc_topK = Some k,
                          hc_filter = None, hc_scoringWeights = None, hc_includeScore = None\<rparr>"

definition exampleRow :: "string \<Rightarrow> real \<Rightarrow> queryResult" where
  "exampleRow i s = \<lparr>qr_id = i, qr_score = s, qr_metadata = Some exampleMetadata, qr_vector = None\<rparr>"

definition exampleHybridRows :: "queryResult list" where
  "exampleHybridRows = [exampleRow ''a'' (5 / 10), exampleRow ''b'' (8 / 10), exampleRow ''c'' (2 / 10)]"

text \<open>An error of the JavaScript runtime, as opposed to one the code throws itself.\<close>

definition isTypeError :: "error \<Rightarrow> bool" where
  "isTypeError err = (case err of TypeError m \<Rightarrow> True | _ \<Rightarrow> False)"

text \<open>
  A filter without the operators outside \<^const>\<open>filterOperators\<close>: they are removed from
  every field constraint, at the top level and in the operands of \<^verbatim>\<open>$and\<close>, \<^verbatim>\<open>$or\<close>
  and \<^verbatim>\<open>$not\<close>.
\<close>

definition recognizedOnly :: "json \<Rightarrow> json" where
  "recognizedOnly val =
     (case val of JObj ops \<Rightarrow> JObj (filter (\<lambda>ov. fst ov \<in> set filterOperators) ops) | _ \<Rightarrow> val)"

fun dropUnrecognized :: "json \<Rightarrow> json" where
  "dropUnrecognized (JObj kvs) =
     JObj (map (\<lambda>kv.
        if fst kv = ''$and'' \<or> fst kv = ''$or'' then
          (fst kv, case snd kv of JArr subs \<Rightarrow> JArr (map dropUnrecognized subs) | _ \<Rightarrow> snd kv)
        else if fst kv = ''$not'' then (fst kv, dropUnrecognized (snd kv))
        else (fst kv, recognizedOnly (snd kv))) kvs)"
| "dropUnrecognized (JArr xs) = JArr (map recognizedOnly xs)"
| "dropUnrecognized v = v"

definition dropEntry :: "string \<times> json \<Rightarrow> string \<times> json" where
  "dropEntry kv =
     (if fst kv = ''$and'' \<or> fst kv = ''$or'' then
        (fst kv, case snd kv of JArr subs \<Rightarrow> JArr (map dropUnrecognized subs) | _ \<Rightarrow> snd kv)
      else if fst kv = ''$not'' then (fst kv, dropUnrecognized (snd kv))
      else (fst kv, recognizedOnly (snd kv)))"

text \<open>Example filters: an unknown operator inside \<^verbatim>\<open>$and\<close>, and a malformed \<^verbatim>\<open>$and\<close>.\<close>

definition exampleNestedFilter :: json where
  "exampleNestedFilter =
     JObj [(''$and'', JArr [JObj [(''viewCount'', JObj [(''$regex'', JStr ''x'')])],
                            JObj [(''title'', JStr ''a'')]])]"

definition exampleBadFilter :: json where
  "exampleBadFilter = JObj [(''$and'', JStr ''x'')]"

text \<open>
  The values the loop of \<^const>\<open>cosineSimilarity64\<close> accumulates: the dot product and the
  squared norm of a vector, and the denominator computed from two squared norms.
\<close>

definition dotProduct64 :: "double list \<Rightarrow> double list \<Rightarrow> double" where
  "dotProduct64 v1 v2 = fold (\<lambda>ab acc. addD acc (mulD (fst ab) (snd ab))) (zip v1 v2) (Fin 0)"

definition normSq64 :: "double list \<Rightarrow> double" where
  "normSq64 v = fold (\<lambda>a acc. addD acc (mulD a a)) v (Fin 0)"

definition magnitudeProduct64 :: "double list \<Rightarrow> double list \<Rightarrow> double" where
  "magnitudeProduct64 v1 v2 = sqrtD (mulD (normSq64 v1) (normSq64 v2))"

definition isFinite :: "double \<Rightarrow> bool" where
  "isFinite d = (case d of Fin x \<Rightarrow> True | _ \<Rightarrow> False)"

text \<open>A double within \<open>[lo, hi]\<close>.\<close>

definition inRange :: "real \<Rightarrow> real \<Rightarrow> double \<Rightarrow> bool" where
  "inRange lo hi d = (case d of Fin x \<Rightarrow> lo \<le> x \<and> x \<le> hi | _ \<Rightarrow> False)"


section \<open>Cosine similarity\<close>

lemma fold_cosineStep:
  "length xs = length ys \<Longrightarrow>
   fold cosineStep (zip xs ys) (d, p, q) =
     (d + sum_list (map (\<lambda>(a, b). a * b) (zip xs ys)),
      p + sum_list (map (\<lambda>(a, b). a * a) (zip xs ys)),
      q + sum_list (map (\<lambda>(a, b). b * b) (zip xs ys)))"
  by (induction xs ys arbitrary: d p q rule: list_induct2)
     (simp_all add: cosineStep_def algebra_simps)

lemma sum_zip_fst:
  "length xs = length ys \<Longrightarrow> sum_list (map (\<lambda>(a, b). f a) (zip xs ys)) = sum_list (map f xs)"
  by (induction xs ys rule: list_induct2) auto

lemma sum_zip_snd:
  "length xs = length ys \<Longrightarrow> sum_list (map (\<lambda>(a, b). f b) (zip xs ys)) = sum_list (map f ys)"
  by (induction xs ys rule: list_induct2) auto

lemma sum_zip_commute:
  "length xs = length ys \<Longrightarrow>
     sum_list (map (\<lambda>(a, b). a * b) (zip xs ys)) = sum_list (map (\<lambda>(a, b). a * (b::real)) (zip ys xs))"
  by (induction xs ys rule: list_induct2) (auto simp: mult.commute)

lemma sum_zip_self:
  "sum_list (map (\<lambda>(a, b). a * b) (zip xs xs)) = sum_list (map (\<lambda>x. x * (x::real)) xs)"
  by (induction xs) auto

text \<open>The value \<^const>\<open>cosineSimilarity\<close> computes on vectors of equal length.\<close>

lemma cosineSimilarity_eq:
  assumes "length v1 = length v2"
  shows "cosineSimilarity (Some v1) (Some v2) =
           (if magnitude v1 * magnitude v2 = 0 then Inr 0
            else Inr (max (- 1) (min 1
                   (sum_list (map (\<lambda>(a, b). a * b) (zip v1 v2)) / (magnitude v1 * magnitude v2)))))"
  using assms
  by (simp add: cosineSimilarity_def fold_cosineStep sum_zip_fst sum_zip_snd magnitude_def
      real_sqrt_mult)

lemma cosineSimilarity_sym:
  assumes "length v1 = length v2"
  shows "cosineSimilarity (Some v1) (Some v2) = cosineSimilarity (Some v2) (Some v1)"
  using assms
  by (simp add: cosineSimilarity_eq sum_zip_commute [OF assms] mult.commute)

lemma cosineSimilarity_range:
  "cosineSimilarity v1 v2 = Inr s \<Longrightarrow> - 1 \<le> s \<and> s \<le> 1"
  by (auto simp: cosineSimilarity_def Let_def split: option.splits if_splits prod.splits)

lemma cosineSimilarity_total:
  "length v1 = length v2 \<Longrightarrow> \<exists>s. cosineSimilarity (Some v1) (Some v2) = Inr s"
  by (simp add: cosineSimilarity_eq)

section \<open>Rounding to binary64\<close>

lemma rne_error: "\<bar>of_int (roundTiesToEven t) - t\<bar> \<le> 1 / 2"
proof -
  have "of_int \<lfloor>t\<rfloor> \<le> t" "t < of_int \<lfloor>t\<rfloor> + 1" by linarith+
  then show ?thesis
    by (auto simp: roundTiesToEven_def Let_def)
qed

lemma toDouble_0 [simp]: "toDouble 0 = Fin 0"
  by (simp add: toDouble_def overflowThreshold_def roundTiesToEven_def)

lemma toDouble_1 [simp]: "toDouble 1 = Fin 1"
proof -
  have u: "ulpOf 1 = 1 / 2 ^ 52"
    by (simp add: ulpOf_def exponentOf_def powr_minus powr_numeral divide_simps)
  show ?thesis
    unfolding toDouble_def u by (simp add: overflowThreshold_def roundTiesToEven_def)
qed

lemma toDouble_rel:
  assumes lo: "1 / 2 ^ 1022 \<le> \<bar>x\<bar>" and hi: "\<bar>x\<bar> \<le> 2 ^ 1023"
  shows "\<exists>y. toDouble x = Fin y \<and> \<bar>y - x\<bar> \<le> \<bar>x\<bar> / 2 ^ 53"
proof -
  define e where "e = \<lfloor>log 2 \<bar>x\<bar>\<rfloor>"
  have "0 < 1 / (2::real) ^ 1022" by simp
  with lo have pos: "0 < \<bar>x\<bar>" by linarith
  have ex: "exponentOf x = e"
    using lo by (simp add: exponentOf_def e_def)
  have "of_int e \<le> log 2 \<bar>x\<bar>"
    by (simp add: e_def)
  then have "2 powr (of_int e) \<le> 2 powr (log 2 \<bar>x\<bar>)"
    by (simp only: powr_le_cancel_iff [of 2]) 
  then have pe: "2 powr (of_int e) \<le> \<bar>x\<bar>"
    using pos by simp
  have ulp: "ulpOf x = 2 powr (of_int e) / 2 ^ 52"
    by (simp add: ulpOf_def ex powr_diff powr_numeral)
  have upos: "0 < ulpOf x"
    by (simp add: ulpOf_def)
  have "(2::real) ^ 1023 < 2 ^ 1024 - 2 ^ 970" by simp
  with hi have nov: "\<not> overflowThreshold \<le> x" "\<not> x \<le> - overflowThreshold"
    by (simp_all add: overflowThreshold_def abs_le_iff)
  define r where "r = roundTiesToEven (x / ulpOf x)"
  have y: "toDouble x = Fin (of_int r * ulpOf x)"
    using nov by (simp add: toDouble_def r_def)
  have "\<bar>of_int r * ulpOf x - x\<bar> = \<bar>of_int r - x / ulpOf x\<bar> * ulpOf x"
  proof -
    have "of_int r * ulpOf x - x = (of_int r - x / ulpOf x) * ulpOf x"
      using upos by (simp add: field_simps)
    then show ?thesis
      using upos by (simp add: abs_mult)
  qed
  also have "\<dots> \<le> 1 / 2 * ulpOf x"
    using rne_error [of "x / ulpOf x"] upos unfolding r_def
    by (intro mult_right_mono) simp_all
  also have "\<dots> = 2 powr (of_int e) / 2 ^ 53"
    by (simp add: ulp)
  also have "\<dots> \<le> \<bar>x\<bar> / 2 ^ 53"
    using pe by (simp add: divide_right_mono)
  finally show ?thesis
    using y by blast
qed

lemma rounding_chain:
  fixes m p s u :: real
  assumes u: "0 < u" "u \<le> 1 / 8" and m: "0 < m"
    and p: "\<bar>p - m * m\<bar> \<le> u * (m * m)"
    and s: "\<bar>s - sqrt p\<bar> \<le> u * sqrt p"
  shows "m * (1 - u) \<le> sqrt p" "sqrt p \<le> m * (1 + u)"
    "m * ((1 - u) * (1 - u)) \<le> s" "s \<le> m * ((1 + u) * (1 + u))"
proof -
  have mm: "0 < m * m" using m by simp
  have plo: "m * m * (1 - u) \<le> p" and phi: "p \<le> m * m * (1 + u)"
    using p by (simp_all add: abs_le_iff algebra_simps)
  have "(1 - u) * (1 - u) \<le> 1 - u"
    using u by (intro mult_left_le_one_le) simp_all
  then have "m * m * ((1 - u) * (1 - u)) \<le> m * m * (1 - u)"
    using mm by (intro mult_left_mono) simp_all
  with plo have "(m * (1 - u))\<^sup>2 \<le> p"
    by (simp add: power2_eq_square algebra_simps)
  then show lo: "m * (1 - u) \<le> sqrt p"
    by (rule real_le_rsqrt)
  have "1 + u \<le> (1 + u) * (1 + u)"
    using u by (simp add: algebra_simps)
  then have "m * m * (1 + u) \<le> m * m * ((1 + u) * (1 + u))"
    using mm by (intro mult_left_mono) simp_all
  with phi have "p \<le> (m * (1 + u))\<^sup>2"
    by (simp add: power2_eq_square algebra_simps)
  moreover have "0 \<le> m * (1 + u)" using m u by simp
  ultimately show hi: "sqrt p \<le> m * (1 + u)"
    by (intro real_le_lsqrt)
  have slo: "sqrt p * (1 - u) \<le> s" and shi: "s \<le> sqrt p * (1 + u)"
    using s by (simp_all add: abs_le_iff algebra_simps)
  have "m * (1 - u) * (1 - u) \<le> sqrt p * (1 - u)"
    using lo u by (intro mult_right_mono) simp_all
  with slo show "m * ((1 - u) * (1 - u)) \<le> s" by (simp add: mult.assoc)
  have "sqrt p * (1 + u) \<le> m * (1 + u) * (1 + u)"
    using hi u by (intro mult_right_mono) simp_all
  with shi show "s \<le> m * ((1 + u) * (1 + u))" by (simp add: mult.assoc)
qed

lemma quotient_bound:
  fixes m s q u :: real
  assumes u: "0 < u" "u \<le> 1 / 8" and m: "0 < m"
    and slo: "m * ((1 - u) * (1 - u)) \<le> s" and shi: "s \<le> m * ((1 + u) * (1 + u))"
  shows "0 < s" "1 / 2 \<le> m / s" "m / s \<le> 2"
    "\<bar>q - m / s\<bar> \<le> u * (m / s) \<Longrightarrow> 1 - 8 * u \<le> q \<and> q \<le> 1 + 8 * u"
proof -
  define a where "a = (1 - u) * (1 - u)"
  define b where "b = (1 + u) * (1 + u)"
  have a: "0 < a" using u by (simp add: a_def)
  have b: "0 < b" using u by (simp add: b_def)
  have ma: "0 < m * a" and mb: "0 < m * b" using m a b by simp_all
  from slo have slo': "m * a \<le> s" by (simp add: a_def)
  from shi have shi': "s \<le> m * b" by (simp add: b_def)
  from slo' ma show spos: "0 < s" by linarith
  have r_hi: "m / s \<le> 1 / a"
  proof -
    have "0 < s * (m * a)" using spos ma by simp
    then have "m / s \<le> m / (m * a)"
      using slo' m by (intro divide_left_mono) simp_all
    also have "\<dots> = 1 / a" using m by simp
    finally show ?thesis .
  qed
  have r_lo: "1 / b \<le> m / s"
  proof -
    have "0 < m * b * s" using spos mb by simp
    then have "m / (m * b) \<le> m / s"
      using shi' m by (intro divide_left_mono) simp_all
    moreover have "m / (m * b) = 1 / b" using m by simp
    ultimately show ?thesis by simp
  qed
  have a_ge: "49 / 64 \<le> a"
  proof -
    have "7 / 8 \<le> 1 - u" using u by simp
    then have "7 / 8 * (7 / 8) \<le> (1 - u) * (1 - u)"
      by (intro mult_mono) simp_all
    then show ?thesis by (simp add: a_def)
  qed
  have b_le: "b \<le> 81 / 64"
  proof -
    have "1 + u \<le> 9 / 8" using u by simp
    then have "(1 + u) * (1 + u) \<le> 9 / 8 * (9 / 8)"
      using u by (intro mult_mono) simp_all
    then show ?thesis by (simp add: b_def)
  qed
  have "1 / a \<le> 1 / (49 / 64)"
    using a_ge by (intro divide_left_mono) simp_all
  with r_hi show "m / s \<le> 2" by simp
  have "1 / (81 / 64) \<le> 1 / b"
    using b_le b by (intro divide_left_mono) simp_all
  with r_lo show "1 / 2 \<le> m / s" by simp
  show "1 - 8 * u \<le> q \<and> q \<le> 1 + 8 * u" if q: "\<bar>q - m / s\<bar> \<le> u * (m / s)"
  proof
    define r where "r = m / s"
    have d: "q - r \<le> u * r" "r - q \<le> u * r"
      using q by (simp_all add: abs_le_iff r_def)
    have e: "r * (1 - u) = r - u * r" "r * (1 + u) = r + u * r"
      by (simp_all add: algebra_simps)
    have "r * (1 - u) \<le> q" "q \<le> r * (1 + u)"
      unfolding e using d by linarith+
    then have qlo: "m / s * (1 - u) \<le> q" and qhi: "q \<le> m / s * (1 + u)"
      by (simp_all add: r_def)
    have uu: "0 \<le> u * u" by simp
    have "m / s * (1 + u) \<le> 1 / a * (1 + u)"
      using r_hi u by (intro mult_right_mono) simp_all
    also have "\<dots> \<le> 1 + 8 * u"
    proof -
      have "(1 + 8 * u) * a - (1 + u) = u * (5 - 15 * u + 8 * (u * u))"
        by (simp add: a_def algebra_simps)
      moreover have "0 \<le> 5 - 15 * u + 8 * (u * u)"
        using u uu by linarith
      then have "0 \<le> u * (5 - 15 * u + 8 * (u * u))"
        using u by (intro mult_nonneg_nonneg) simp_all
      ultimately have "1 + u \<le> (1 + 8 * u) * a" by linarith
      then have "(1 + u) / a \<le> 1 + 8 * u"
        using a by (simp add: pos_divide_le_eq)
      then show ?thesis by simp
    qed
    finally show "q \<le> 1 + 8 * u" using qhi by linarith
    have "1 - 8 * u \<le> 1 / b * (1 - u)"
    proof -
      have "(1 - u) - (1 - 8 * u) * b = u * (5 + 15 * u + 8 * (u * u))"
        by (simp add: b_def algebra_simps)
      moreover have "0 \<le> 5 + 15 * u + 8 * (u * u)"
        using u uu by linarith
      then have "0 \<le> u * (5 + 15 * u + 8 * (u * u))"
        using u by (intro mult_nonneg_nonneg) simp_all
      ultimately have "(1 - 8 * u) * b \<le> 1 - u" by linarith
      then have "1 - 8 * u \<le> (1 - u) / b"
        using b by (simp add: pos_le_divide_eq)
      then show ?thesis by simp
    qed
    also have "\<dots> \<le> m / s * (1 - u)"
      using r_lo u by (intro mult_right_mono) simp_all
    finally show "1 - 8 * u \<le> q" using qlo by linarith
  qed
qed

section \<open>Cosine similarity on doubles\<close>

lemma mulD_commute: "mulD a b = mulD b a"
  by (cases a; cases b) (simp_all add: mult.commute)

lemma toDouble_not_NaN [simp]: "toDouble x \<noteq> QNaN"
  by (simp add: toDouble_def)

lemma fold_cosineStep64:
  "length v1 = length v2 \<Longrightarrow>
     fold cosineStep64 (zip v1 v2) (d, n1, n2) =
       (fold (\<lambda>ab acc. addD acc (mulD (fst ab) (snd ab))) (zip v1 v2) d,
        fold (\<lambda>a acc. addD acc (mulD a a)) v1 n1,
        fold (\<lambda>a acc. addD acc (mulD a a)) v2 n2)"
  by (induction v1 v2 arbitrary: d n1 n2 rule: list_induct2) (simp_all add: cosineStep64_def)

lemma cosineSimilarity64_eq:
  assumes "length v1 = length v2"
  shows "cosineSimilarity64 (Some v1) (Some v2) =
     (if magnitudeProduct64 v1 v2 = Fin 0 then Inr (Fin 0)
      else Inr (maxD (Fin (- 1)) (minD (Fin 1) (divD (dotProduct64 v1 v2) (magnitudeProduct64 v1 v2)))))"
  using assms
  by (simp add: cosineSimilarity64_def fold_cosineStep64 Let_def magnitudeProduct64_def
      dotProduct64_def normSq64_def)

lemma dotProduct64_commute:
  "length v1 = length v2 \<Longrightarrow> dotProduct64 v1 v2 = dotProduct64 v2 v1"
proof -
  have "length v1 = length v2 \<Longrightarrow>
      fold (\<lambda>ab acc. addD acc (mulD (fst ab) (snd ab))) (zip v1 v2) d =
      fold (\<lambda>ab acc. addD acc (mulD (fst ab) (snd ab))) (zip v2 v1) d" for d
    by (induction v1 v2 arbitrary: d rule: list_induct2) (simp_all add: mulD_commute)
  then show "length v1 = length v2 \<Longrightarrow> dotProduct64 v1 v2 = dotProduct64 v2 v1"
    by (simp add: dotProduct64_def)
qed

lemma magnitudeProduct64_commute: "magnitudeProduct64 v1 v2 = magnitudeProduct64 v2 v1"
  by (simp add: magnitudeProduct64_def mulD_commute)

lemma cosineSimilarity64_sym:
  "length v1 = length v2 \<Longrightarrow>
     cosineSimilarity64 (Some v1) (Some v2) = cosineSimilarity64 (Some v2) (Some v1)"
  by (simp add: cosineSimilarity64_eq dotProduct64_commute magnitudeProduct64_commute)

lemma dotProduct64_self: "dotProduct64 v v = normSq64 v"
proof -
  have "fold (\<lambda>ab acc. addD acc (mulD (fst ab) (snd ab))) (zip v v) d =
        fold (\<lambda>a acc. addD acc (mulD a a)) v d" for d
    by (induction v arbitrary: d) simp_all
  then show ?thesis by (simp add: dotProduct64_def normSq64_def)
qed

lemma clamp_cases:
  "maxD (Fin (- 1)) (minD (Fin 1) s) = QNaN \<and> s = QNaN
   \<or> (s \<noteq> QNaN \<and> inRange (- 1) 1 (maxD (Fin (- 1)) (minD (Fin 1) s)))"
  by (cases s) (simp_all add: inRange_def)

lemma divD_not_NaN:
  "isFinite d \<Longrightarrow> isFinite p \<Longrightarrow> p \<noteq> Fin 0 \<Longrightarrow> divD d p \<noteq> QNaN"
  by (cases d; cases p) (simp_all add: isFinite_def)

lemma normSq64_zeros: "list_all (\<lambda>a. a = Fin 0) v \<Longrightarrow> normSq64 v = Fin 0"
proof -
  have "list_all (\<lambda>a. a = Fin 0) v \<Longrightarrow> fold (\<lambda>a acc. addD acc (mulD a a)) v (Fin 0) = Fin 0"
    by (induction v) simp_all
  then show "list_all (\<lambda>a. a = Fin 0) v \<Longrightarrow> normSq64 v = Fin 0"
    by (simp add: normSq64_def)
qed

lemma magnitudeProduct64_zero:
  "normSq64 v1 = Fin 0 \<Longrightarrow> isFinite (normSq64 v2) \<Longrightarrow> magnitudeProduct64 v1 v2 = Fin 0"
  by (cases "normSq64 v2") (simp_all add: magnitudeProduct64_def isFinite_def)

lemma sqrt_bounds:
  fixes m p u :: real
  assumes u: "0 < u" "u \<le> 1 / 8" and m: "0 < m"
    and p: "\<bar>p - m * m\<bar> \<le> u * (m * m)"
  shows "m * (1 - u) \<le> sqrt p" "sqrt p \<le> m * (1 + u)" "0 < p"
proof -
  have mm: "0 < m * m" using m by simp
  have plo: "m * m * (1 - u) \<le> p"
    using p by (simp add: abs_le_iff algebra_simps)
  have "0 < m * m * (1 - u)" using mm u by simp
  with plo show pos: "0 < p" by linarith
  then have sp: "0 \<le> u * sqrt p" using u by simp
  then have "\<bar>sqrt p - sqrt p\<bar> \<le> u * sqrt p" by simp
  from rounding_chain(1,2) [OF u m p this]
  show "m * (1 - u) \<le> sqrt p" "sqrt p \<le> m * (1 + u)" .
qed

lemma cosineSimilarity64_self:
  assumes n: "normSq64 v = Fin m" and lo: "1 / 2 ^ 500 \<le> m" and hi: "m \<le> 2 ^ 500"
  shows "\<exists>r. cosineSimilarity64 (Some v) (Some v) = Inr (Fin r) \<and> 1 - 1 / 2 ^ 50 \<le> r \<and> r \<le> 1"
proof -
  define u :: real where "u = 1 / 2 ^ 53"
  have u: "0 < u" "u \<le> 1 / 8" by (simp_all add: u_def)
  have u8: "8 * u = 1 / 2 ^ 50" by (simp add: u_def)
  have "0 < 1 / (2::real) ^ 500" by simp
  with lo have m: "0 < m" by linarith
  \<comment> \<open>\<^verbatim>\<open>normVec1 * normVec2\<close>\<close>
  have "1 / 2 ^ 500 * (1 / 2 ^ 500) \<le> m * m"
    using lo by (intro mult_mono) simp_all
  moreover have "(1::real) / 2 ^ 1022 \<le> 1 / 2 ^ 500 * (1 / 2 ^ 500)" by simp
  ultimately have x1lo: "1 / 2 ^ 1022 \<le> \<bar>m * m\<bar>" by simp
  have "m * m \<le> 2 ^ 500 * 2 ^ 500"
    using hi m by (intro mult_mono) simp_all
  moreover have "(2::real) ^ 500 * 2 ^ 500 \<le> 2 ^ 1023" by simp
  ultimately have x1hi: "\<bar>m * m\<bar> \<le> 2 ^ 1023" by simp
  from toDouble_rel [OF x1lo x1hi] obtain p
    where p: "toDouble (m * m) = Fin p" and pe: "\<bar>p - m * m\<bar> \<le> u * (m * m)"
    by (auto simp: u_def)
  note sb = sqrt_bounds [OF u m pe]
  \<comment> \<open>\<^verbatim>\<open>Math.sqrt\<close>\<close>
  have "1 / 2 ^ 500 * (7 / 8) \<le> m * (1 - u)"
    using lo u by (intro mult_mono) simp_all
  moreover have "(1::real) / 2 ^ 1022 \<le> 1 / 2 ^ 500 * (7 / 8)" by simp
  ultimately have "1 / 2 ^ 1022 \<le> sqrt p" using sb(1) by linarith
  then have x2lo: "1 / 2 ^ 1022 \<le> \<bar>sqrt p\<bar>" by simp
  have "m * (1 + u) \<le> 2 ^ 500 * (9 / 8)"
    using hi u m by (intro mult_mono) simp_all
  moreover have "(2::real) ^ 500 * (9 / 8) \<le> 2 ^ 1023" by simp
  ultimately have "sqrt p \<le> 2 ^ 1023" using sb(2) by linarith
  moreover have "0 \<le> sqrt p" using sb(3) by simp
  ultimately have x2hi: "\<bar>sqrt p\<bar> \<le> 2 ^ 1023" by simp
  from toDouble_rel [OF x2lo x2hi] obtain s
    where s: "toDouble (sqrt p) = Fin s" and se: "\<bar>s - sqrt p\<bar> \<le> u * sqrt p"
    using \<open>0 \<le> sqrt p\<close> by (auto simp: u_def)
  note rc = rounding_chain(3,4) [OF u m pe se]
  note qb = quotient_bound [OF u m rc]
  have mp: "magnitudeProduct64 v v = Fin s"
    using sb(3) by (simp add: magnitudeProduct64_def n p s)
  \<comment> \<open>\<^verbatim>\<open>dotProduct / magnitudeProduct\<close>\<close>
  have x3lo: "1 / 2 ^ 1022 \<le> \<bar>m / s\<bar>"
  proof -
    have "(1::real) / 2 ^ 1022 \<le> 1 / 2" by simp
    with qb(2) show ?thesis by linarith
  qed
  have x3hi: "\<bar>m / s\<bar> \<le> 2 ^ 1023"
  proof -
    have "(2::real) \<le> 2 ^ 1023" by simp
    moreover have "0 \<le> m / s" using qb(2) by linarith
    ultimately show ?thesis using qb(3) by simp
  qed
  from toDouble_rel [OF x3lo x3hi] obtain q
    where q: "toDouble (m / s) = Fin q" and qe: "\<bar>q - m / s\<bar> \<le> u * (m / s)"
    using qb(2) by (auto simp: u_def)
  from qb(4) [OF qe] have qr: "1 - 8 * u \<le> q" "q \<le> 1 + 8 * u" by simp_all
  have "cosineSimilarity64 (Some v) (Some v) = Inr (Fin (max (- 1) (min 1 q)))"
    using qb(1) by (simp add: cosineSimilarity64_eq mp dotProduct64_self n q)
  moreover have "1 - 1 / 2 ^ 50 \<le> max (- 1) (min 1 q)" "max (- 1) (min 1 q) \<le> 1"
    using qr(1) unfolding u8 by simp_all
  ultimately show ?thesis by blast
qed

text \<open>Values the rounding leaves as they are, sends to an infinity, or to zero.\<close>

lemma toDouble_overflow: "overflowThreshold \<le> x \<Longrightarrow> toDouble x = PosInf"
  by (simp add: toDouble_def)

lemma roundTiesToEven_small: "0 \<le> t \<Longrightarrow> t < 1 / 2 \<Longrightarrow> roundTiesToEven t = 0"
proof -
  assume t: "0 \<le> t" "t < 1 / 2"
  then have "\<lfloor>t\<rfloor> = 0" by (intro floor_unique) simp_all
  then show ?thesis using t by (simp add: roundTiesToEven_def)
qed

lemma toDouble_underflow:
  assumes "0 \<le> x" "x < 1 / 2 ^ 1075"
  shows "toDouble x = Fin 0"
proof -
  have "(1::real) / 2 ^ 1075 < 1 / 2 ^ 1022" by simp
  with assms have "\<bar>x\<bar> < 1 / 2 ^ 1022" by simp
  then have ulp: "ulpOf x = 1 / 2 ^ 1074"
    by (simp add: ulpOf_def exponentOf_def powr_minus powr_numeral divide_simps)
  have "x * 2 ^ 1074 < 1 / 2 ^ 1075 * 2 ^ 1074"
    using assms(2) by (intro mult_strict_right_mono) simp_all
  then have "x / ulpOf x < 1 / 2" by (simp add: ulp)
  moreover have "0 \<le> x / ulpOf x" using assms(1) by (simp add: ulp)
  ultimately have "roundTiesToEven (x / ulpOf x) = 0"
    by (intro roundTiesToEven_small)
  moreover have "\<not> overflowThreshold \<le> x" "\<not> x \<le> - overflowThreshold"
    using assms by (simp_all add: overflowThreshold_def)
  ultimately show ?thesis by (simp add: toDouble_def)
qed

lemma toDouble_pow2:
  assumes "k \<le> 1023"
  shows "toDouble (2 ^ k) = Fin (2 ^ k)"
proof -
  have one: "(1::real) \<le> 2 ^ k" by simp
  have "(1::real) / 2 ^ 1022 \<le> 1" by simp
  with one have "(1::real) / 2 ^ 1022 \<le> 2 ^ k" by linarith
  moreover have a: "\<bar>(2::real) ^ k\<bar> = 2 ^ k" by simp
  ultimately have "\<not> \<bar>(2::real) ^ k\<bar> < 1 / 2 ^ 1022"
    by (simp only: not_less)
  moreover have "log 2 ((2::real) ^ k) = real k"
    by (simp add: log_nat_power)
  ultimately have ex: "exponentOf (2 ^ k) = int k"
    by (simp add: exponentOf_def)
  have "ulpOf (2 ^ k) = 2 powr (real k - 52)"
    by (simp add: ulpOf_def ex)
  also have "\<dots> = 2 powr real k / 2 ^ 52"
    by (simp add: powr_diff powr_numeral)
  also have "\<dots> = 2 ^ k / 2 ^ 52"
    by (simp add: powr_realpow)
  finally have ulp: "ulpOf (2 ^ k) = 2 ^ k / 2 ^ 52" .
  have t: "(2::real) ^ k / ulpOf (2 ^ k) = 2 ^ 52"
    by (simp add: ulp)
  have r: "roundTiesToEven (2 ^ 52) = 2 ^ 52"
    by (simp add: roundTiesToEven_def)
  have "(2::real) ^ k \<le> 2 ^ 1023"
    using assms by (intro power_increasing) simp_all
  moreover have "(2::real) ^ 1023 < overflowThreshold"
    by (simp add: overflowThreshold_def)
  ultimately have "(2::real) ^ k < overflowThreshold" by linarith
  moreover have "0 < overflowThreshold"
    by (simp add: overflowThreshold_def)
  ultimately have nov: "\<not> overflowThreshold \<le> 2 ^ k" "\<not> (2::real) ^ k \<le> - overflowThreshold"
    using one by linarith+
  have "toDouble (2 ^ k) = Fin (of_int (roundTiesToEven ((2::real) ^ k / ulpOf (2 ^ k))) * ulpOf (2 ^ k))"
    using nov by (simp add: toDouble_def)
  also have "\<dots> = Fin (2 ^ k)"
    unfolding t r by (simp add: ulp)
  finally show ?thesis .
qed

text \<open>
  C5 (as the code has it, on doubles). For vectors of equal length: the routine returns
  the same value in both argument orders. The value it returns is \<open>NaN\<close> or lies within
  \<open>[-1, 1]\<close>, and it lies within \<open>[-1, 1]\<close> whenever the computed dot product and the
  computed denominator are finite. It is \<open>0\<close> whenever the computed denominator is \<open>0\<close>, in
  particular when one vector has only zero components and the computed squared norm of
  the other is finite. The similarity of a vector with itself is \<open>0\<close> when its computed
  squared norm is \<open>0\<close>, and within \<^verbatim>\<open>2^-50\<close> of \<open>1\<close>, not above \<open>1\<close>, when its computed
  squared norm lies between \<^verbatim>\<open>2^-500\<close> and \<^verbatim>\<open>2^500\<close>.
\<close>

theorem cosineSimilarity64_properties:
  assumes "length v1 = length v2"
  shows "cosineSimilarity64 (Some v1) (Some v2) = cosineSimilarity64 (Some v2) (Some v1)
     \<and> (\<exists>s. cosineSimilarity64 (Some v1) (Some v2) = Inr s \<and> (s = QNaN \<or> inRange (- 1) 1 s))
     \<and> (isFinite (dotProduct64 v1 v2) \<and> isFinite (magnitudeProduct64 v1 v2) \<longrightarrow>
          (\<exists>s. cosineSimilarity64 (Some v1) (Some v2) = Inr s \<and> inRange (- 1) 1 s))
     \<and> (magnitudeProduct64 v1 v2 = Fin 0 \<longrightarrow> cosineSimilarity64 (Some v1) (Some v2) = Inr (Fin 0))
     \<and> (list_all (\<lambda>a. a = Fin 0) v1 \<and> isFinite (normSq64 v2) \<longrightarrow>
          cosineSimilarity64 (Some v1) (Some v2) = Inr (Fin 0)
        \<and> cosineSimilarity64 (Some v2) (Some v1) = Inr (Fin 0))
     \<and> (normSq64 v1 = Fin 0 \<longrightarrow> cosineSimilarity64 (Some v1) (Some v1) = Inr (Fin 0))
     \<and> (\<forall>m. normSq64 v1 = Fin m \<and> 1 / 2 ^ 500 \<le> m \<and> m \<le> 2 ^ 500 \<longrightarrow>
          (\<exists>s. cosineSimilarity64 (Some v1) (Some v1) = Inr s \<and> inRange (1 - 1 / 2 ^ 50) 1 s))"
proof (intro conjI impI allI)
  let ?q = "divD (dotProduct64 v1 v2) (magnitudeProduct64 v1 v2)"
  show sym: "cosineSimilarity64 (Some v1) (Some v2) = cosineSimilarity64 (Some v2) (Some v1)"
    by (rule cosineSimilarity64_sym [OF assms])
  show "\<exists>s. cosineSimilarity64 (Some v1) (Some v2) = Inr s \<and> (s = QNaN \<or> inRange (- 1) 1 s)"
    using clamp_cases [of ?q]
    by (auto simp: cosineSimilarity64_eq [OF assms] inRange_def)
  show "\<exists>s. cosineSimilarity64 (Some v1) (Some v2) = Inr s \<and> inRange (- 1) 1 s"
    if "isFinite (dotProduct64 v1 v2) \<and> isFinite (magnitudeProduct64 v1 v2)"
  proof (cases "magnitudeProduct64 v1 v2 = Fin 0")
    case True
    then show ?thesis
      by (simp add: cosineSimilarity64_eq [OF assms] inRange_def)
  next
    case False
    with that have "?q \<noteq> QNaN" by (intro divD_not_NaN) simp_all
    with clamp_cases [of ?q] False show ?thesis
      by (auto simp: cosineSimilarity64_eq [OF assms])
  qed
  show "cosineSimilarity64 (Some v1) (Some v2) = Inr (Fin 0)" if "magnitudeProduct64 v1 v2 = Fin 0"
    using that by (simp add: cosineSimilarity64_eq [OF assms])
  show z: "cosineSimilarity64 (Some v1) (Some v2) = Inr (Fin 0)"
    if "list_all (\<lambda>a. a = Fin 0) v1 \<and> isFinite (normSq64 v2)"
    using that magnitudeProduct64_zero [OF normSq64_zeros, of v1 v2]
    by (simp add: cosineSimilarity64_eq [OF assms])
  show "cosineSimilarity64 (Some v2) (Some v1) = Inr (Fin 0)"
    if "list_all (\<lambda>a. a = Fin 0) v1 \<and> isFinite (normSq64 v2)"
    using z [OF that] sym by simp
  show "cosineSimilarity64 (Some v1) (Some v1) = Inr (Fin 0)" if "normSq64 v1 = Fin 0"
    using that by (simp add: cosineSimilarity64_eq magnitudeProduct64_def)
  show "\<exists>s. cosineSimilarity64 (Some v1) (Some v1) = Inr s \<and> inRange (1 - 1 / 2 ^ 50) 1 s"
    if "normSq64 v1 = Fin m \<and> 1 / 2 ^ 500 \<le> m \<and> m \<le> 2 ^ 500" for m
  proof -
    from that have "normSq64 v1 = Fin m" "1 / 2 ^ 500 \<le> m" "m \<le> 2 ^ 500" by simp_all
    from cosineSimilarity64_self [OF this] show ?thesis
      by (auto simp: inRange_def)
  qed
qed

lemma normSq64_example: "normSq64 [Fin 1, Fin 0] = Fin 1" "normSq64 [Fin 0, Fin 0] = Fin 0"
  by (simp_all add: normSq64_def)

theorem cosineSimilarity64_properties_witness:
  "cosineSimilarity64 (Some [Fin 0, Fin 0]) (Some [Fin 1, Fin 0]) = Inr (Fin 0)
   \<and> cosineSimilarity64 (Some [Fin 1, Fin 0]) (Some [Fin 0, Fin 0]) = Inr (Fin 0)
   \<and> (\<exists>s. cosineSimilarity64 (Some [Fin 1, Fin 0]) (Some [Fin 1, Fin 0]) = Inr s
          \<and> inRange (1 - 1 / 2 ^ 50) 1 s)"
proof -
  have a: "length [Fin 0, Fin 0] = length [Fin 1, Fin 0]"
    and b: "length [Fin 1, Fin 0] = length [Fin 1, Fin 0]"
    by simp_all
  note P = cosineSimilarity64_properties [OF a] and Q = cosineSimilarity64_properties [OF b]
  have h: "list_all (\<lambda>a. a = Fin 0) [Fin 0, Fin 0] \<and> isFinite (normSq64 [Fin 1, Fin 0])"
    by (simp add: normSq64_example isFinite_def)
  from P h have p: "cosineSimilarity64 (Some [Fin 0, Fin 0]) (Some [Fin 1, Fin 0]) = Inr (Fin 0)
      \<and> cosineSimilarity64 (Some [Fin 1, Fin 0]) (Some [Fin 0, Fin 0]) = Inr (Fin 0)"
    by blast
  have r: "normSq64 [Fin 1, Fin 0] = Fin 1 \<and> 1 / 2 ^ 500 \<le> (1::real) \<and> (1::real) \<le> 2 ^ 500"
    by (simp add: normSq64_example)
  from Q have "\<forall>m. normSq64 [Fin 1, Fin 0] = Fin m \<and> 1 / 2 ^ 500 \<le> m \<and> m \<le> 2 ^ 500 \<longrightarrow>
      (\<exists>s. cosineSimilarity64 (Some [Fin 1, Fin 0]) (Some [Fin 1, Fin 0]) = Inr s
          \<and> inRange (1 - 1 / 2 ^ 50) 1 s)"
    by blast
  with r have q: "\<exists>s. cosineSimilarity64 (Some [Fin 1, Fin 0]) (Some [Fin 1, Fin 0]) = Inr s
          \<and> inRange (1 - 1 / 2 ^ 50) 1 s"
    by blast
  from p q show ?thesis by blast
qed

text \<open>
  Where the routine does not do what is said of every vector. The zero vector has
  similarity \<open>0\<close> with itself, by the guard on the zero denominator. With components of
  about \<^verbatim>\<open>2^600\<close> the squares overflow and the result is \<open>NaN\<close>; with a component
  \<^verbatim>\<open>2^300\<close> the product of the squared norms overflows, and with \<^verbatim>\<open>2^-600\<close> the square
  underflows to zero: the similarity of the vector with itself is \<open>0\<close>. A zero vector
  against a vector whose squares overflow gives \<open>NaN\<close>, not \<open>0\<close>.
\<close>

lemma square_overflow: "toDouble (2 ^ 600 * 2 ^ 600) = PosInf"
  by (rule toDouble_overflow) (simp add: overflowThreshold_def)

lemma square_exact: "toDouble (2 ^ 300 * 2 ^ 300) = Fin (2 ^ 600)"
proof -
  have "(2::real) ^ 300 * 2 ^ 300 = 2 ^ 600" by simp
  then show ?thesis
    using toDouble_pow2 [of 600] by (simp only:)
qed

lemma add_exact: "toDouble (0 + 2 ^ 600) = Fin (2 ^ 600)"
  using toDouble_pow2 [of 600] by (simp only: add_0)

lemma square_underflow: "toDouble (1 / 2 ^ 600 * (1 / 2 ^ 600)) = Fin 0"
  by (rule toDouble_underflow) simp_all

theorem cosineSimilarity64_unlike_claim:
  "cosineSimilarity64 (Some [Fin 0, Fin 0]) (Some [Fin 0, Fin 0]) = Inr (Fin 0)
   \<and> cosineSimilarity64 (Some [Fin (2 ^ 600)]) (Some [Fin (2 ^ 600)]) = Inr QNaN
   \<and> cosineSimilarity64 (Some [Fin (2 ^ 300)]) (Some [Fin (2 ^ 300)]) = Inr (Fin 0)
   \<and> cosineSimilarity64 (Some [Fin (1 / 2 ^ 600)]) (Some [Fin (1 / 2 ^ 600)]) = Inr (Fin 0)
   \<and> cosineSimilarity64 (Some [Fin 0]) (Some [Fin (2 ^ 600)]) = Inr QNaN"
proof (intro conjI)
  show "cosineSimilarity64 (Some [Fin 0, Fin 0]) (Some [Fin 0, Fin 0]) = Inr (Fin 0)"
    by (simp add: cosineSimilarity64_def cosineStep64_def)
  show "cosineSimilarity64 (Some [Fin (2 ^ 600)]) (Some [Fin (2 ^ 600)]) = Inr QNaN"
    by (simp only: cosineSimilarity64_def cosineStep64_def zip.simps list.case fold.simps
        prod.case option.case mulD.simps addD.simps square_overflow Let_def sqrtD.simps
        divD.simps minD.simps maxD.simps list.size comp_def id_def if_False double.distinct
        refl if_True simp_thms)
  show "cosineSimilarity64 (Some [Fin (2 ^ 300)]) (Some [Fin (2 ^ 300)]) = Inr (Fin 0)"
    unfolding cosineSimilarity64_def cosineStep64_def
    by (simp only: zip.simps list.case fold.simps
        prod.case option.case mulD.simps addD.simps square_exact add_exact square_overflow
        Let_def sqrtD.simps divD.simps minD.simps maxD.simps list.size comp_def id_def if_False
        double.distinct refl if_True simp_thms) simp
  show "cosineSimilarity64 (Some [Fin (1 / 2 ^ 600)]) (Some [Fin (1 / 2 ^ 600)]) = Inr (Fin 0)"
    unfolding cosineSimilarity64_def cosineStep64_def
    by (simp only: zip.simps list.case fold.simps
        prod.case option.case mulD.simps addD.simps square_underflow
        Let_def list.size comp_def id_def if_False refl simp_thms) simp
  show "cosineSimilarity64 (Some [Fin 0]) (Some [Fin (2 ^ 600)]) = Inr QNaN"
    unfolding cosineSimilarity64_def cosineStep64_def
    by (simp only: zip.simps list.case fold.simps
        prod.case option.case mulD.simps addD.simps square_overflow
        Let_def list.size comp_def id_def if_False refl simp_thms mult_zero_left)
       (simp add: signedInf_def)
qed

section \<open>Graph construction\<close>

lemma digitVal_digitChar: "d < 10 \<Longrightarrow> digitVal (digitChar d) = d"
proof -
  assume "d < 10"
  then have "d \<in> {0, 1, 2, 3, 4, 5, 6, 7, 8, 9}" by auto
  then show ?thesis
    by (auto simp: digitVal_def digitChar_def)
qed

lemma fromDigits_toString: "foldl (\<lambda>a c. 10 * a + digitVal c) 0 (toString n) = n"
proof (induction n rule: toString.induct)
  case (1 n)
  show ?case
  proof (cases "n < 10")
    case True
    then show ?thesis by (simp add: toString.simps [of n] digitVal_digitChar)
  next
    case False
    then show ?thesis
      using 1 by (simp add: toString.simps [of n] digitVal_digitChar)
  qed
qed

lemma toString_inj: "toString m = toString n \<Longrightarrow> m = n"
  by (metis fromDigits_toString)

lemma toString_eq_iff [simp]: "toString m = toString n \<longleftrightarrow> m = n"
  using toString_inj by blast

lemma forEachM_append:
  "forEachM f (xs @ ys) s = (case forEachM f xs s of Inl e \<Rightarrow> Inl e | Inr s' \<Rightarrow> forEachM f ys s')"
  by (induction xs arbitrary: s) (auto split: sum.splits)

text \<open>The first loop: one node per chunk.\<close>

lemma addNodes_result:
  "forEachM (\<lambda>ic g. addNode g (chunkNode embeddings ic)) (enumerate k chunks) g = Inr g' \<Longrightarrow>
     edges g' = edges g \<and> dimension g' = dimension g \<and> threshold g' = threshold g
     \<and> fst ` set (nodes g') = fst ` set (nodes g) \<union> toString ` {k ..< k + length chunks}
     \<and> (\<forall>i. k \<le> i \<and> i < k + length chunks \<longrightarrow>
            (\<exists>v. vectorAt embeddings i = Some v \<and> length v = dimension g))"
proof (induction chunks arbitrary: k g)
  case Nil
  then show ?case by auto
next
  case (Cons c cs)
  from Cons.prems obtain g1 where
    a: "addNode g (chunkNode embeddings (k, c)) = Inr g1"
    and r: "forEachM (\<lambda>ic g. addNode g (chunkNode embeddings ic)) (enumerate (Suc k) cs) g1 = Inr g'"
    by (auto split: sum.splits)
  from a obtain v where v: "vectorAt embeddings k = Some v" "length v = dimension g"
    and g1: "g1 = g\<lparr>nodes := AList.update (toString k) (chunkNode embeddings (k, c)) (nodes g)\<rparr>"
    by (auto simp: addNode_def chunkNode_def split: option.splits if_splits)
  have n1: "fst ` set (nodes g1) = insert (toString k) (fst ` set (nodes g))"
    by (simp add: g1 dom_update)
  note ih = Cons.IH [OF r]
  have "{k ..< k + length (c # cs)} = insert k {Suc k ..< Suc k + length cs}"
    by auto
  moreover have "\<And>i. k \<le> i \<and> i < k + length (c # cs) \<longleftrightarrow> i = k \<or> (Suc k \<le> i \<and> i < Suc k + length cs)"
    by auto
  ultimately show ?case
    using ih v by (auto simp: g1 dom_update)
qed

lemma addNodes_total:
  "(\<forall>i. k \<le> i \<and> i < k + length chunks \<longrightarrow>
            (\<exists>v. vectorAt embeddings i = Some v \<and> length v = dimension g)) \<Longrightarrow>
   \<exists>g'. forEachM (\<lambda>ic g. addNode g (chunkNode embeddings ic)) (enumerate k chunks) g = Inr g'"
proof (induction chunks arbitrary: k g)
  case Nil
  then show ?case by simp
next
  case (Cons c cs)
  from Cons.prems obtain v where v: "vectorAt embeddings k = Some v" "length v = dimension g"
    by force
  define g1 where "g1 = g\<lparr>nodes := AList.update (toString k) (chunkNode embeddings (k, c)) (nodes g)\<rparr>"
  have a: "addNode g (chunkNode embeddings (k, c)) = Inr g1"
    using v by (simp add: addNode_def chunkNode_def g1_def)
  have "\<forall>i. Suc k \<le> i \<and> i < Suc k + length cs \<longrightarrow>
            (\<exists>v. vectorAt embeddings i = Some v \<and> length v = dimension g1)"
    using Cons.prems by (simp add: g1_def)
  from Cons.IH [OF this] show ?case
    by (simp add: a)
qed

lemma edgeStep_result:
  assumes "has (nodes g) (toString i)" "has (nodes g) (toString j)"
    and "cosineSimilarity (vectorAt embeddings i) (vectorAt embeddings j) = Inr s"
  shows "edgeStep embeddings i j g = Inr (g\<lparr>edges := edges g @ pairEdges embeddings (threshold g) i j\<rparr>)"
  using assms by (simp add: edgeStep_def addEdge_def pairEdges_def mkEdge_def)

lemma inner_loop_result:
  assumes "has (nodes g) (toString i)" "\<forall>j\<in>set js. has (nodes g) (toString j)"
    and "\<forall>j\<in>set js. \<exists>s. cosineSimilarity (vectorAt embeddings i) (vectorAt embeddings j) = Inr s"
  shows "forEachM (edgeStep embeddings i) js g =
           Inr (g\<lparr>edges := edges g @ concat (map (pairEdges embeddings (threshold g) i) js)\<rparr>)"
  using assms
proof (induction js arbitrary: g)
  case Nil
  then show ?case by simp
next
  case (Cons j js)
  from Cons.prems obtain s where
    s: "cosineSimilarity (vectorAt embeddings i) (vectorAt embeddings j) = Inr s" by auto
  let ?g1 = "g\<lparr>edges := edges g @ pairEdges embeddings (threshold g) i j\<rparr>"
  have st: "edgeStep embeddings i j g = Inr ?g1"
    using Cons.prems s by (intro edgeStep_result) auto
  have "forEachM (edgeStep embeddings i) js ?g1 =
     Inr (?g1\<lparr>edges := edges ?g1 @ concat (map (pairEdges embeddings (threshold ?g1) i) js)\<rparr>)"
    using Cons.prems by (intro Cons.IH) auto
  then show ?case
    by (simp add: st)
qed

lemma outer_loop_result:
  assumes "\<forall>i<n. has (nodes g) (toString i)"
    and "\<forall>i<n. \<forall>j<n. \<exists>s. cosineSimilarity (vectorAt embeddings i) (vectorAt embeddings j) = Inr s"
    and "set is \<subseteq> {..<n}"
  shows "forEachM (\<lambda>i. forEachM (edgeStep embeddings i) [i + 1 ..< n]) is g =
           Inr (g\<lparr>edges := edges g @ concat (map (rowEdges embeddings (threshold g) n) is)\<rparr>)"
  using assms
proof (induction "is" arbitrary: g)
  case Nil
  then show ?case by simp
next
  case (Cons i "is")
  let ?g1 = "g\<lparr>edges := edges g @ rowEdges embeddings (threshold g) n i\<rparr>"
  have i: "i < n" using Cons.prems by simp
  have st: "forEachM (edgeStep embeddings i) [i + 1 ..< n] g = Inr ?g1"
    unfolding rowEdges_def using Cons.prems i by (intro inner_loop_result) auto
  have "forEachM (\<lambda>i. forEachM (edgeStep embeddings i) [i + 1 ..< n]) is ?g1 =
      Inr (?g1\<lparr>edges := edges ?g1 @ concat (map (rowEdges embeddings (threshold ?g1) n) is)\<rparr>)"
    using Cons.prems by (intro Cons.IH) auto
  then show ?case
    using st by simp
qed

lemma set_pairEdges:
  "e \<in> set (pairEdges embeddings t i j) \<longleftrightarrow>
     (\<exists>s. cosineSimilarity (vectorAt embeddings i) (vectorAt embeddings j) = Inr s \<and> t < s
          \<and> (e = mkEdge i j s \<or> e = mkEdge j i s))"
  by (cases "cosineSimilarity (vectorAt embeddings i) (vectorAt embeddings j)")
     (auto simp: pairEdges_def)

lemma set_rowEdges:
  "e \<in> set (rowEdges embeddings t n i) \<longleftrightarrow>
     (\<exists>j. i < j \<and> j < n \<and> e \<in> set (pairEdges embeddings t i j))"
  unfolding rowEdges_def by (auto simp: Suc_le_eq)

lemma set_allEdges:
  "e \<in> set (allEdges embeddings t n) \<longleftrightarrow>
     (\<exists>i j s. i < j \<and> j < n
          \<and> cosineSimilarity (vectorAt embeddings i) (vectorAt embeddings j) = Inr s \<and> t < s
          \<and> (e = mkEdge i j s \<or> e = mkEdge j i s))"
proof -
  have "e \<in> set (allEdges embeddings t n) \<longleftrightarrow>
      (\<exists>i j. i < j \<and> j < n \<and> e \<in> set (pairEdges embeddings t i j))"
    unfolding allEdges_def by (auto simp: set_rowEdges)
  then show ?thesis
    unfolding set_pairEdges by blast
qed

lemma distinct_concat_map:
  assumes "distinct xs" "\<And>x. x \<in> set xs \<Longrightarrow> distinct (f x)"
    and "\<And>x y. x \<in> set xs \<Longrightarrow> y \<in> set xs \<Longrightarrow> x \<noteq> y \<Longrightarrow> set (f x) \<inter> set (f y) = {}"
  shows "distinct (concat (map f xs))"
  using assms
proof (induction xs)
  case Nil
  then show ?case by simp
next
  case (Cons x xs)
  have "distinct (concat (map f xs))"
    using Cons.prems by (intro Cons.IH) auto
  moreover have "set (f x) \<inter> set (f y) = {}" if "y \<in> set xs" for y
    using Cons.prems(1) that by (intro Cons.prems(3)) auto
  ultimately show ?case
    using Cons.prems(2) [of x] by auto
qed

lemma endpoints_pairEdges:
  "p \<in> set (map endpoints (pairEdges embeddings t i j)) \<Longrightarrow>
     p = (toString i, toString j) \<or> p = (toString j, toString i)"
  by (auto simp: pairEdges_def endpoints_def mkEdge_def split: sum.splits if_splits)

lemma distinct_pairEdges:
  "i \<noteq> j \<Longrightarrow> distinct (map endpoints (pairEdges embeddings t i j))"
  by (auto simp: pairEdges_def endpoints_def mkEdge_def split: sum.splits)

lemma endpoints_rowEdges:
  assumes "p \<in> set (map endpoints (rowEdges embeddings t n i))"
  shows "\<exists>j. i < j \<and> j < n \<and> (p = (toString i, toString j) \<or> p = (toString j, toString i))"
proof -
  from assms obtain j where j: "j \<in> set [i + 1 ..< n]"
    and p: "p \<in> set (map endpoints (pairEdges embeddings t i j))"
    unfolding rowEdges_def by auto
  from endpoints_pairEdges [OF p] j show ?thesis by auto
qed

lemma distinct_rowEdges:
  "distinct (map endpoints (rowEdges embeddings t n i))"
proof -
  have "distinct (concat (map (\<lambda>j. map endpoints (pairEdges embeddings t i j)) [i + 1 ..< n]))"
  proof (rule distinct_concat_map)
    show "distinct [i + 1 ..< n]" by simp
    show "distinct (map endpoints (pairEdges embeddings t i j))" if "j \<in> set [i + 1 ..< n]" for j
      using that by (intro distinct_pairEdges) auto
    show "set (map endpoints (pairEdges embeddings t i x)) \<inter> set (map endpoints (pairEdges embeddings t i y)) = {}"
      if "x \<in> set [i + 1 ..< n]" "y \<in> set [i + 1 ..< n]" "x \<noteq> y" for x y
    proof (rule ccontr)
      assume "\<not> ?thesis"
      then obtain p where "p \<in> set (map endpoints (pairEdges embeddings t i x))"
        "p \<in> set (map endpoints (pairEdges embeddings t i y))" by blast
      from endpoints_pairEdges [OF this(1)] endpoints_pairEdges [OF this(2)] that
      show False by auto
    qed
  qed
  then show ?thesis
    by (simp add: rowEdges_def map_concat comp_def)
qed

lemma distinct_allEdges:
  "distinct (map endpoints (allEdges embeddings t n))"
proof -
  have "distinct (concat (map (\<lambda>i. map endpoints (rowEdges embeddings t n i)) [0 ..< n]))"
  proof (rule distinct_concat_map)
    show "distinct [0 ..< n]" by simp
    show "distinct (map endpoints (rowEdges embeddings t n i))" for i
      by (rule distinct_rowEdges)
    show "set (map endpoints (rowEdges embeddings t n x)) \<inter> set (map endpoints (rowEdges embeddings t n y)) = {}"
      if "x \<in> set [0 ..< n]" "y \<in> set [0 ..< n]" "x \<noteq> y" for x y
    proof (rule ccontr)
      assume "\<not> ?thesis"
      then obtain p where "p \<in> set (map endpoints (rowEdges embeddings t n x))"
        "p \<in> set (map endpoints (rowEdges embeddings t n y))" by blast
      from endpoints_rowEdges [OF this(1)] endpoints_rowEdges [OF this(2)] that
      show False by auto
    qed
  qed
  then show ?thesis
    by (simp add: allEdges_def map_concat comp_def)
qed

lemma vectorAt_Some: "i < length embeddings \<Longrightarrow> vectorAt embeddings i = Some (vector (embeddings ! i))"
  by (simp add: vectorAt_def)

lemma createGraph_success:
  assumes ne: "chunks \<noteq> []" and len: "length chunks = length embeddings"
    and dims: "\<forall>e\<in>set embeddings. length (vector e) = d"
  shows "\<exists>g. createGraph (newGraphRAG d t) chunks embeddings = Inr g
            \<and> edges g = allEdges embeddings t (length chunks)
            \<and> fst ` set (nodes g) = toString ` {0 ..< length chunks}
            \<and> dimension g = d \<and> threshold g = t"
proof -
  let ?n = "length chunks"
  let ?g0 = "newGraphRAG d t"
  have va: "\<exists>v. vectorAt embeddings i = Some v \<and> length v = d" if "i < ?n" for i
    using that len dims by (simp add: vectorAt_Some)
  have "\<forall>i. 0 \<le> i \<and> i < 0 + ?n \<longrightarrow> (\<exists>v. vectorAt embeddings i = Some v \<and> length v = dimension ?g0)"
    using va by (simp add: newGraphRAG_def)
  from addNodes_total [OF this] obtain g1 where
    g1: "forEachM (\<lambda>ic g. addNode g (chunkNode embeddings ic)) (enumerate 0 chunks) ?g0 = Inr g1"
    by blast
  from addNodes_result [OF g1] have p1: "edges g1 = []" "dimension g1 = d" "threshold g1 = t"
    "fst ` set (nodes g1) = toString ` {0 ..< ?n}"
    by (simp_all add: newGraphRAG_def)
  have hasn: "\<forall>i<?n. has (nodes g1) (toString i)"
    by (simp add: has_def p1)
  have cs: "\<forall>i<?n. \<forall>j<?n. \<exists>s. cosineSimilarity (vectorAt embeddings i) (vectorAt embeddings j) = Inr s"
  proof (intro allI impI)
    fix i j assume "i < ?n" "j < ?n"
    from va [OF this(1)] va [OF this(2)] obtain v w where
      "vectorAt embeddings i = Some v" "vectorAt embeddings j = Some w" "length v = length w"
      by auto
    then show "\<exists>s. cosineSimilarity (vectorAt embeddings i) (vectorAt embeddings j) = Inr s"
      using cosineSimilarity_total by simp
  qed
  have "forEachM (\<lambda>i. forEachM (edgeStep embeddings i) [i + 1 ..< ?n]) [0 ..< ?n] g1 =
      Inr (g1\<lparr>edges := edges g1 @ concat (map (rowEdges embeddings (threshold g1) ?n) [0 ..< ?n])\<rparr>)"
    using hasn cs by (intro outer_loop_result) auto
  moreover have "embeddings \<noteq> []"
    using ne len by auto
  ultimately have "createGraph ?g0 chunks embeddings = Inr (g1\<lparr>edges := allEdges embeddings t ?n\<rparr>)"
    using ne len g1 by (simp add: createGraph_def p1 allEdges_def)
  then show ?thesis
    using p1 by simp
qed

lemma createGraph_dims:
  assumes "length chunks = length embeddings"
    and "createGraph (newGraphRAG d t) chunks embeddings = Inr g"
  shows "\<forall>e\<in>set embeddings. length (vector e) = d"
proof -
  from assms obtain g1 where
    "forEachM (\<lambda>ic g. addNode g (chunkNode embeddings ic)) (enumerate 0 chunks) (newGraphRAG d t) = Inr g1"
    by (auto simp: createGraph_def split: if_splits sum.splits)
  from addNodes_result [OF this]
  have "\<forall>i<length embeddings. length (vector (embeddings ! i)) = d"
    using assms(1) by (auto simp: vectorAt_def newGraphRAG_def)
  then show ?thesis
    by (auto simp: in_set_conv_nth)
qed

text \<open>
  C1. For non-empty chunk and embedding arrays of equal length, \<^verbatim>\<open>createGraph\<close> on a new
  graph returns exactly when every embedding has the configured dimension, and the
  graph it returns has an edge from node \<open>i\<close> to a distinct node \<open>j\<close> if and only if
  the cosine similarity of their embeddings is strictly greater than the threshold;
  every stored edge joins two distinct nodes, carries that similarity as its weight
  (so a weight within \<open>(threshold, 1]\<close>), and is stored together with its reverse of
  the same weight; and no two stored entries have the same source and target.
\<close>

theorem createGraph_edges:
  assumes "chunks \<noteq> []" and "length chunks = length embeddings"
  shows "((\<exists>g. createGraph (newGraphRAG d t) chunks embeddings = Inr g)
            \<longleftrightarrow> (\<forall>e\<in>set embeddings. length (vector e) = d))
     \<and> (\<forall>g. createGraph (newGraphRAG d t) chunks embeddings = Inr g \<longrightarrow>
           (\<forall>i<length chunks. \<forall>j<length chunks. i \<noteq> j \<longrightarrow>
              ((\<exists>e\<in>set (edges g). source e = toString i \<and> target e = toString j) \<longleftrightarrow>
               (\<exists>s. cosineSimilarity (Some (vector (embeddings ! i))) (Some (vector (embeddings ! j))) = Inr s
                    \<and> t < s)))
         \<and> (\<forall>e\<in>set (edges g). \<exists>i<length chunks. \<exists>j<length chunks.
                i \<noteq> j \<and> source e = toString i \<and> target e = toString j \<and> source e \<noteq> target e
              \<and> cosineSimilarity (Some (vector (embeddings ! i))) (Some (vector (embeddings ! j)))
                  = Inr (weight e)
              \<and> t < weight e \<and> weight e \<le> 1
              \<and> \<lparr>source = target e, target = source e, weight = weight e, edge_type = Semantic\<rparr>
                  \<in> set (edges g))
         \<and> distinct (map (\<lambda>e. (source e, target e)) (edges g)))"
proof (intro conjI allI impI)
  show "(\<exists>g. createGraph (newGraphRAG d t) chunks embeddings = Inr g)
            \<longleftrightarrow> (\<forall>e\<in>set embeddings. length (vector e) = d)"
    using createGraph_success [OF assms] createGraph_dims [OF assms(2)] by blast
next
  fix g assume g: "createGraph (newGraphRAG d t) chunks embeddings = Inr g"
  let ?n = "length chunks"
  let ?cos = "\<lambda>i j. cosineSimilarity (Some (vector (embeddings ! i))) (Some (vector (embeddings ! j)))"
  have dims: "\<forall>e\<in>set embeddings. length (vector e) = d"
    using createGraph_dims [OF assms(2) g] .
  from createGraph_success [OF assms dims, of t] g
  have eg: "edges g = allEdges embeddings t ?n" by simp
  have va: "vectorAt embeddings i = Some (vector (embeddings ! i))" if "i < ?n" for i
    using that assms(2) by (simp add: vectorAt_Some)
  have sym: "?cos i j = ?cos j i" if "i < ?n" "j < ?n" for i j
    using that assms(2) dims by (intro cosineSimilarity_sym) simp
  have mem: "e \<in> set (edges g) \<longleftrightarrow>
      (\<exists>i j s. i < j \<and> j < ?n \<and> ?cos i j = Inr s \<and> t < s \<and> (e = mkEdge i j s \<or> e = mkEdge j i s))" for e
  proof -
    have "(\<exists>i j s. i < j \<and> j < ?n
          \<and> cosineSimilarity (vectorAt embeddings i) (vectorAt embeddings j) = Inr s \<and> t < s
          \<and> (e = mkEdge i j s \<or> e = mkEdge j i s)) \<longleftrightarrow>
       (\<exists>i j s. i < j \<and> j < ?n \<and> ?cos i j = Inr s \<and> t < s \<and> (e = mkEdge i j s \<or> e = mkEdge j i s))"
      using va by (metis less_trans)
    then show ?thesis
      by (simp only: eg set_allEdges)
  qed
  show "(\<exists>e\<in>set (edges g). source e = toString i \<and> target e = toString j) \<longleftrightarrow>
        (\<exists>s. ?cos i j = Inr s \<and> t < s)" if ij: "i < ?n" "j < ?n" "i \<noteq> j" for i j
  proof
    assume "\<exists>e\<in>set (edges g). source e = toString i \<and> target e = toString j"
    then obtain e where e: "e \<in> set (edges g)" "source e = toString i" "target e = toString j"
      by blast
    from e(1) obtain a b s where abs: "a < b" "b < ?n" "?cos a b = Inr s" "t < s"
      "e = mkEdge a b s \<or> e = mkEdge b a s"
      unfolding mem by blast
    from abs(5) e(2,3) have "(a = i \<and> b = j) \<or> (b = i \<and> a = j)"
      by (auto simp: mkEdge_def)
    then show "\<exists>s. ?cos i j = Inr s \<and> t < s"
      using abs(3,4) sym [OF ij(1,2)] by auto
  next
    assume "\<exists>s. ?cos i j = Inr s \<and> t < s"
    then obtain s where s: "?cos i j = Inr s" "t < s" by blast
    show "\<exists>e\<in>set (edges g). source e = toString i \<and> target e = toString j"
    proof (cases "i < j")
      case True
      then have "mkEdge i j s \<in> set (edges g)"
        unfolding mem using s ij by blast
      then show ?thesis
        by (rule bexI [rotated]) (simp add: mkEdge_def)
    next
      case False
      then have ji: "j < i" using ij(3) by simp
      have "?cos j i = Inr s" using s(1) sym [OF ij(1,2)] by simp
      then have "mkEdge i j s \<in> set (edges g)"
        unfolding mem using s(2) ji ij by blast
      then show ?thesis
        by (rule bexI [rotated]) (simp add: mkEdge_def)
    qed
  qed
  show "\<forall>e\<in>set (edges g). \<exists>i<?n. \<exists>j<?n.
                i \<noteq> j \<and> source e = toString i \<and> target e = toString j \<and> source e \<noteq> target e
              \<and> ?cos i j = Inr (weight e)
              \<and> t < weight e \<and> weight e \<le> 1
              \<and> \<lparr>source = target e, target = source e, weight = weight e, edge_type = Semantic\<rparr>
                  \<in> set (edges g)"
  proof
    fix e assume "e \<in> set (edges g)"
    then obtain a b s where abs: "a < b" "b < ?n" "?cos a b = Inr s" "t < s"
      "e = mkEdge a b s \<or> e = mkEdge b a s"
      unfolding mem by blast
    have an: "a < ?n" using abs(1,2) by simp
    have s1: "s \<le> 1" using cosineSimilarity_range [OF abs(3)] by simp
    have both: "mkEdge a b s \<in> set (edges g)" "mkEdge b a s \<in> set (edges g)"
      unfolding mem using abs(1-4) by blast+
    from abs(5) show "\<exists>i<?n. \<exists>j<?n.
                i \<noteq> j \<and> source e = toString i \<and> target e = toString j \<and> source e \<noteq> target e
              \<and> ?cos i j = Inr (weight e)
              \<and> t < weight e \<and> weight e \<le> 1
              \<and> \<lparr>source = target e, target = source e, weight = weight e, edge_type = Semantic\<rparr>
                  \<in> set (edges g)"
    proof
      assume e: "e = mkEdge a b s"
      show ?thesis
        apply (rule exI [of _ a], rule conjI [OF an], rule exI [of _ b], rule conjI [OF abs(2)])
        using abs(1,3,4) s1 both(2) by (simp add: e mkEdge_def)
    next
      assume e: "e = mkEdge b a s"
      show ?thesis
        apply (rule exI [of _ b], rule conjI [OF abs(2)], rule exI [of _ a], rule conjI [OF an])
        using abs(1,3,4) s1 both(1) sym [OF an abs(2)] by (simp add: e mkEdge_def)
    qed
  qed
  show "distinct (map (\<lambda>e. (source e, target e)) (edges g))"
    using distinct_allEdges [of embeddings t ?n] by (simp add: eg endpoints_def [abs_def])
qed

lemma toString_digits:
  "toString 0 = ''0''" "toString 1 = ''1''" "toString (Suc 0) = ''1''" "toString 2 = ''2''"
  by (simp_all add: toString.simps digitChar_def)

theorem createGraph_edges_witness:
  "\<exists>g. createGraph (newGraphRAG 2 (7 / 10)) exampleChunks exampleEmbeddings = Inr g
      \<and> (\<exists>e\<in>set (edges g). source e = ''0'' \<and> target e = ''1'')
      \<and> (\<exists>e\<in>set (edges g). source e = ''1'' \<and> target e = ''0'')
      \<and> \<not> (\<exists>e\<in>set (edges g). source e = ''0'' \<and> target e = ''2'')
      \<and> distinct (map (\<lambda>e. (source e, target e)) (edges g))"
proof -
  have ne: "exampleChunks \<noteq> []" and len: "length exampleChunks = length exampleEmbeddings"
    by (simp_all add: exampleChunks_def exampleEmbeddings_def)
  note T = createGraph_edges [OF ne len, of 2 "7 / 10"]
  have "\<forall>e\<in>set exampleEmbeddings. length (vector e) = 2"
    by (simp add: exampleEmbeddings_def)
  with T obtain g where g: "createGraph (newGraphRAG 2 (7 / 10)) exampleChunks exampleEmbeddings = Inr g"
    by blast
  have n: "length exampleChunks = 3" by (simp add: exampleChunks_def)
  from T g have
    iff: "\<And>i j. i < 3 \<Longrightarrow> j < 3 \<Longrightarrow> i \<noteq> j \<Longrightarrow>
        (\<exists>e\<in>set (edges g). source e = toString i \<and> target e = toString j) \<longleftrightarrow>
        (\<exists>s. cosineSimilarity (Some (vector (exampleEmbeddings ! i))) (Some (vector (exampleEmbeddings ! j))) = Inr s
                    \<and> 7 / 10 < s)"
    and d: "distinct (map (\<lambda>e. (source e, target e)) (edges g))"
    unfolding n by blast+
  have v: "vector (exampleEmbeddings ! 0) = [1, 0]" "vector (exampleEmbeddings ! Suc 0) = [1, 0]"
    "vector (exampleEmbeddings ! 2) = [0, 1]"
    by (simp_all add: exampleEmbeddings_def)
  have c01: "cosineSimilarity (Some [1, 0]) (Some [1, 0]) = Inr 1"
    and c02: "cosineSimilarity (Some [1, 0]) (Some [0, 1]) = Inr 0"
    by (simp_all add: cosineSimilarity_def cosineStep_def)
  have "\<exists>e\<in>set (edges g). source e = ''0'' \<and> target e = ''1''"
    using iff [of 0 1] by (simp add: v c01 toString_digits)
  moreover have "\<exists>e\<in>set (edges g). source e = ''1'' \<and> target e = ''0''"
    using iff [of 1 0] by (simp add: v c01 toString_digits)
  moreover have "\<not> (\<exists>e\<in>set (edges g). source e = ''0'' \<and> target e = ''2'')"
    using iff [of 0 2] by (simp add: v c02 toString_digits)
  ultimately show ?thesis
    using g d by blast
qed

section \<open>Random walk and query\<close>

lemma weightedScan_in:
  "weightedScan r ns = Some i \<Longrightarrow> \<exists>n\<in>set ns. i = nb_id n"
  by (induction ns arbitrary: r) (auto simp: Let_def split: if_splits)

lemma selectWeightedNeighbor_in:
  assumes "neighbors \<noteq> []"
  shows "\<exists>n\<in>set neighbors. selectWeightedNeighbor r neighbors = Some (nb_id n)"
proof (cases "weightedScan (r * foldl (\<lambda>sum n. sum + nb_weight n) 0 neighbors) neighbors")
  case None
  then have "selectWeightedNeighbor r neighbors = Some (nb_id (last neighbors))"
    using assms by (simp add: selectWeightedNeighbor_def)
  then show ?thesis
    using assms last_in_set by blast
next
  case (Some i)
  then have "selectWeightedNeighbor r neighbors = Some i"
    by (simp add: selectWeightedNeighbor_def)
  then show ?thesis
    using weightedScan_in [OF Some] by auto
qed

lemma selectWeightedNeighbor_last:
  assumes "neighbors \<noteq> []"
    and "weightedScan (r * foldl (\<lambda>sum n. sum + nb_weight n) 0 neighbors) neighbors = None"
  shows "selectWeightedNeighbor r neighbors = Some (nb_id (last neighbors))"
  using assms by (simp add: selectWeightedNeighbor_def)

lemma walkStep_current:
  "currentNodeId (walkStep g rand start p st) = Some start
   \<or> (\<exists>n\<in>set (getNeighbors g (currentNodeId st)).
         currentNodeId (walkStep g rand start p st) = Some (nb_id n))"
proof (cases "rand (drawn st) < p \<or> getNeighbors g (currentNodeId st) = []")
  case True
  then show ?thesis by (auto simp: walkStep_def Let_def)
next
  case False
  then have "currentNodeId (walkStep g rand start p st) =
      selectWeightedNeighbor (rand (drawn st + 1)) (getNeighbors g (currentNodeId st))"
    by (simp add: walkStep_def Let_def)
  then show ?thesis
    using selectWeightedNeighbor_in [of "getNeighbors g (currentNodeId st)" "rand (drawn st + 1)"] False
    by auto
qed

lemma walkStep_visits:
  "fst ` set (visits (walkStep g rand start p st)) = insert (currentNodeId st) (fst ` set (visits st))"
  by (auto simp: walkStep_def Let_def dom_update)

lemma getNeighbors_target:
  assumes "edgesWithinNodes g" "n \<in> set (getNeighbors g cur)"
  shows "has (nodes g) (nb_id n)"
  using assms by (auto simp: edgesWithinNodes_def getNeighbors_def list_all_iff)

lemma walkStep_inv:
  assumes "edgesWithinNodes g" "has (nodes g) start"
    and "isNodeId g (currentNodeId st)" "\<forall>i\<in>fst ` set (visits st). isNodeId g i"
  shows "isNodeId g (currentNodeId (walkStep g rand start p st))
       \<and> (\<forall>i\<in>fst ` set (visits (walkStep g rand start p st)). isNodeId g i)"
proof
  show "isNodeId g (currentNodeId (walkStep g rand start p st))"
    using walkStep_current [of g rand start p st] assms(2) getNeighbors_target [OF assms(1)]
    by (auto simp: isNodeId_def)
  show "\<forall>i\<in>fst ` set (visits (walkStep g rand start p st)). isNodeId g i"
    unfolding walkStep_visits using assms(3,4) by auto
qed

lemma walkLoop_inv:
  assumes "edgesWithinNodes g" "has (nodes g) start"
  shows "isNodeId g (currentNodeId st) \<Longrightarrow> \<forall>i\<in>fst ` set (visits st). isNodeId g i \<Longrightarrow>
     \<forall>i\<in>fst ` set (visits (walkLoop g rand start p n st)). isNodeId g i"
proof (induction n arbitrary: st)
  case 0
  then show ?case by simp
next
  case (Suc n)
  from walkStep_inv [OF assms Suc.prems, of rand p]
  have a: "isNodeId g (currentNodeId (walkStep g rand start p st))"
    and b: "\<forall>i\<in>fst ` set (visits (walkStep g rand start p st)). isNodeId g i"
    by blast+
  show ?case
    using Suc.IH [OF a b] by simp
qed

lemma randomWalk_keys:
  "fst ` set (fst (randomWalkWithRestart g rand k start steps p)) =
     fst ` set (visits (walkLoop g rand start p (nat \<lceil>steps\<rceil>)
                  \<lparr>visits = [], currentNodeId = Some start, drawn = k\<rparr>))"
  by (force simp: randomWalkWithRestart_def Let_def)

lemma randomWalk_in_nodes:
  assumes "edgesWithinNodes g" "has (nodes g) start"
  shows "\<forall>i\<in>fst ` set (fst (randomWalkWithRestart g rand k start steps p)). isNodeId g i"
  unfolding randomWalk_keys
  by (rule walkLoop_inv [OF assms]) (simp_all add: isNodeId_def assms)

lemma createGraph_edgesWithinNodes:
  assumes "createGraph (newGraphRAG d t) chunks embeddings = Inr g"
  shows "edgesWithinNodes g"
proof -
  from assms have ne: "chunks \<noteq> []" and len: "length chunks = length embeddings"
    by (auto simp: createGraph_def split: if_splits)
  from createGraph_success [OF ne len createGraph_dims [OF len assms], of t] assms
  have e: "edges g = allEdges embeddings t (length chunks)"
    and n: "fst ` set (nodes g) = toString ` {0 ..< length chunks}"
    by simp_all
  show ?thesis
    unfolding edgesWithinNodes_def list_all_iff e has_def n
    by (auto simp: set_allEdges mkEdge_def)
qed

text \<open>
  C10. For every non-empty neighbor list \<^verbatim>\<open>selectWeightedNeighbor\<close> returns the id of a
  listed neighbor, the last one when the weighted scan ends without returning; a step of
  \<^verbatim>\<open>randomWalkWithRestart\<close> moves to the seed or to a neighbor of the current node; and
  on a graph whose edges join its nodes, started at a node, every id with a recorded
  visit is a node id of the graph (never \<^verbatim>\<open>undefined\<close>).
\<close>

theorem randomWalk_stays_in_graph:
  "(neighbors \<noteq> [] \<longrightarrow>
      (\<exists>n\<in>set neighbors. selectWeightedNeighbor r neighbors = Some (nb_id n))
    \<and> (weightedScan (r * foldl (\<lambda>sum n. sum + nb_weight n) 0 neighbors) neighbors = None \<longrightarrow>
         selectWeightedNeighbor r neighbors = Some (nb_id (last neighbors))))
 \<and> (currentNodeId (walkStep g rand start p st) = Some start
    \<or> (\<exists>n\<in>set (getNeighbors g (currentNodeId st)).
          currentNodeId (walkStep g rand start p st) = Some (nb_id n)))
 \<and> (edgesWithinNodes g \<and> has (nodes g) start \<longrightarrow>
      (\<forall>i\<in>fst ` set (fst (randomWalkWithRestart g rand k start steps p)).
          \<exists>s. i = Some s \<and> has (nodes g) s))"
proof (intro conjI impI)
  show "\<exists>n\<in>set neighbors. selectWeightedNeighbor r neighbors = Some (nb_id n)" if "neighbors \<noteq> []"
    using that by (rule selectWeightedNeighbor_in)
  show "selectWeightedNeighbor r neighbors = Some (nb_id (last neighbors))"
    if "neighbors \<noteq> []" "weightedScan (r * foldl (\<lambda>sum n. sum + nb_weight n) 0 neighbors) neighbors = None"
    using that by (rule selectWeightedNeighbor_last)
  show "currentNodeId (walkStep g rand start p st) = Some start
    \<or> (\<exists>n\<in>set (getNeighbors g (currentNodeId st)).
          currentNodeId (walkStep g rand start p st) = Some (nb_id n))"
    by (rule walkStep_current)
  show "\<forall>i\<in>fst ` set (fst (randomWalkWithRestart g rand k start steps p)).
          \<exists>s. i = Some s \<and> has (nodes g) s" if "edgesWithinNodes g \<and> has (nodes g) start"
    using randomWalk_in_nodes [of g start rand k steps p] that
    by (auto simp: isNodeId_def split: option.splits)
qed

theorem randomWalk_stays_in_graph_witness:
  "(\<exists>n\<in>set (getNeighbors exampleGraph (Some ''0'')).
       selectWeightedNeighbor (1 / 2) (getNeighbors exampleGraph (Some ''0'')) = Some (nb_id n))
   \<and> list_all (\<lambda>iv. \<exists>s. fst iv = Some s \<and> has (nodes exampleGraph) s)
        (fst (randomWalkWithRestart exampleGraph (\<lambda>_. 1 / 2) 0 ''0'' 3 (15 / 100)))"
proof -
  note T = randomWalk_stays_in_graph [of "getNeighbors exampleGraph (Some ''0'')" "1 / 2"
      exampleGraph "\<lambda>_. 1 / 2" "''0''" "15 / 100"
      "\<lparr>visits = [], currentNodeId = Some ''0'', drawn = 0\<rparr>" 0 3]
  have ne: "getNeighbors exampleGraph (Some ''0'') \<noteq> []"
    by (simp add: getNeighbors_def exampleGraph_def)
  have wf: "edgesWithinNodes exampleGraph \<and> has (nodes exampleGraph) ''0''"
    by (simp add: edgesWithinNodes_def exampleGraph_def has_def)
  from T ne have a: "\<exists>n\<in>set (getNeighbors exampleGraph (Some ''0'')).
       selectWeightedNeighbor (1 / 2) (getNeighbors exampleGraph (Some ''0'')) = Some (nb_id n)"
    by blast
  from T wf have "\<forall>i\<in>fst ` set (fst (randomWalkWithRestart exampleGraph (\<lambda>_. 1 / 2) 0 ''0'' 3 (15 / 100))).
          \<exists>s. i = Some s \<and> has (nodes exampleGraph) s"
    by blast
  then have b: "list_all (\<lambda>iv. \<exists>s. fst iv = Some s \<and> has (nodes exampleGraph) s)
        (fst (randomWalkWithRestart exampleGraph (\<lambda>_. 1 / 2) 0 ''0'' 3 (15 / 100)))"
    by (simp add: list_all_iff)
  from a b show ?thesis ..
qed

lemma set_update_subset: "set (AList.update k v al) \<subseteq> insert (k, v) (set al)"
  by (induction al) auto

lemma addNode_wf:
  assumes "addNode g node = Inr g'" "nodesWellFormed g"
  shows "nodesWellFormed g'"
proof -
  from assms(1) obtain v where v: "node_embedding node = Some v" "length v = dimension g"
    and g': "g' = g\<lparr>nodes := AList.update (node_id node) node (nodes g)\<rparr>"
    by (auto simp: addNode_def split: option.splits if_splits)
  have "node_id (snd kn) = fst kn \<and>
      map_option length (node_embedding (snd kn)) = Some (dimension g)"
    if "kn \<in> set (AList.update (node_id node) node (nodes g))" for kn
  proof -
    from that set_update_subset [of "node_id node" node "nodes g"]
    have "kn = (node_id node, node) \<or> kn \<in> set (nodes g)" by auto
    then show ?thesis
      using assms(2) v by (auto simp: nodesWellFormed_def list_all_iff)
  qed
  then show ?thesis
    by (simp add: nodesWellFormed_def list_all_iff g')
qed

lemma addNodes_wf:
  "forEachM (\<lambda>ic g. addNode g (chunkNode embeddings ic)) ics g = Inr g' \<Longrightarrow>
     nodesWellFormed g \<Longrightarrow> nodesWellFormed g'"
proof (induction ics arbitrary: g)
  case Nil
  then show ?case by simp
next
  case (Cons ic ics)
  from Cons.prems(1) obtain g1 where
    a: "addNode g (chunkNode embeddings ic) = Inr g1"
    and r: "forEachM (\<lambda>ic g. addNode g (chunkNode embeddings ic)) ics g1 = Inr g'"
    by (auto split: sum.splits)
  show ?case
    using Cons.IH [OF r addNode_wf [OF a Cons.prems(2)]] .
qed

lemma edgeStep_nodes:
  "edgeStep embeddings i j g = Inr g' \<Longrightarrow> nodes g' = nodes g \<and> dimension g' = dimension g"
  by (auto simp: edgeStep_def addEdge_def split: sum.splits if_splits)

lemma forEachM_keeps:
  assumes "\<And>x s s'. f x s = Inr s' \<Longrightarrow> P s \<Longrightarrow> P s'"
  shows "forEachM f xs s = Inr s' \<Longrightarrow> P s \<Longrightarrow> P s'"
proof (induction xs arbitrary: s)
  case Nil
  then show ?case by simp
next
  case (Cons x xs)
  from Cons.prems(1) obtain s1 where a: "f x s = Inr s1" and r: "forEachM f xs s1 = Inr s'"
    by (auto split: sum.splits)
  show ?case
    using Cons.IH [OF r assms [OF a Cons.prems(2)]] .
qed

lemma createGraph_nodesWellFormed:
  assumes "createGraph (newGraphRAG d t) chunks embeddings = Inr g"
  shows "nodesWellFormed g"
proof -
  from assms obtain g1 where
    p1: "forEachM (\<lambda>ic g. addNode g (chunkNode embeddings ic)) (enumerate 0 chunks) (newGraphRAG d t) = Inr g1"
    and p2: "forEachM (\<lambda>i. forEachM (edgeStep embeddings i) [i + 1 ..< length chunks])
               [0 ..< length chunks] g1 = Inr g"
    by (auto simp: createGraph_def split: if_splits sum.splits)
  have w1: "nodesWellFormed g1"
    by (rule addNodes_wf [OF p1]) (simp add: nodesWellFormed_def newGraphRAG_def)
  have step: "nodesWellFormed s'"
    if "edgeStep embeddings i j s = Inr s'" "nodesWellFormed s" for i j s s'
  proof -
    from edgeStep_nodes [OF that(1)] have "nodes s' = nodes s" "dimension s' = dimension s"
      by simp_all
    with that(2) show ?thesis
      by (simp add: nodesWellFormed_def)
  qed
  have inner: "nodesWellFormed s'"
    if "forEachM (edgeStep embeddings i) js s = Inr s'" "nodesWellFormed s" for i js s s'
    using that by (rule forEachM_keeps [rotated]) (rule step)
  show ?thesis
    using p2 w1 by (rule forEachM_keeps [rotated]) (rule inner)
qed

lemma mapM_total:
  assumes "\<forall>x\<in>set xs. \<exists>y. f x = Inr y"
  shows "\<exists>ys. mapM f xs = Inr ys \<and> (\<forall>y\<in>set ys. \<exists>x\<in>set xs. f x = Inr y)"
  using assms by (induction xs) (auto split: sum.splits)

lemma set_insertBy [simp]: "set (insertBy cmp x ys) = insert x (set ys)"
  by (induction ys) auto

lemma set_sortBy [simp]: "set (sortBy cmp xs) = set xs"
  by (induction xs) (simp_all add: sortBy_def)

lemma length_insertBy [simp]: "length (insertBy cmp x ys) = Suc (length ys)"
  by (induction ys) auto

lemma length_sortBy [simp]: "length (sortBy cmp xs) = length xs"
  by (induction xs) (simp_all add: sortBy_def)

lemma set_slice0: "set (slice0 xs k) \<subseteq> set xs"
  by (auto simp: slice0_def Let_def dest: in_set_takeD)

lemma has_map_of: "has m k \<Longrightarrow> \<exists>v. map_of m k = Some v"
  unfolding has_def by (induction m) auto

lemma combineScores_nodes:
  assumes "\<forall>i\<in>fst ` set walkScores. isNodeId g i"
    and "\<forall>r\<in>snd ` set acc. rr_node r \<noteq> None"
  shows "\<forall>r\<in>snd ` set (combineScores g s walkScores acc). rr_node r \<noteq> None"
  unfolding combineScores_def using assms
proof (induction walkScores arbitrary: acc)
  case Nil
  then show ?case by simp
next
  case (Cons a ws)
  obtain i w where a: "a = (i, w)" by (cases a)
  from Cons.prems(1) have "isNodeId g i" by (simp add: a)
  then have n: "nodesGet g i \<noteq> None"
    using has_map_of by (fastforce simp: isNodeId_def nodesGet_def split: option.splits)
  let ?acc' = "AList.update i \<lparr>rr_node = nodesGet g i,
      rr_score = (case map_of acc i of None \<Rightarrow> 0 | Some r \<Rightarrow> rr_score r) + s * w\<rparr> acc"
  have "\<forall>r\<in>snd ` set ?acc'. rr_node r \<noteq> None"
    using Cons.prems(2) n set_update_subset [of i _ acc] by fastforce
  moreover have "\<forall>i\<in>fst ` set ws. isNodeId g i"
    using Cons.prems(1) by simp
  ultimately show ?case
    using Cons.IH [of ?acc'] by (simp add: a Let_def)
qed

lemma rerank_nodes:
  assumes wf: "edgesWithinNodes g"
    and seeds: "\<forall>x\<in>set seeds. has (nodes g) (node_id (fst x))"
    and acc: "\<forall>r\<in>snd ` set (fst acc). rr_node r \<noteq> None"
  shows "\<forall>r\<in>snd ` set (fst (fold (rerankStep g rand steps p) seeds acc)). rr_node r \<noteq> None"
  using seeds acc
proof (induction seeds arbitrary: acc)
  case Nil
  then show ?case by simp
next
  case (Cons x xs)
  obtain node s where x: "x = (node, s)" by (cases x)
  obtain rr k where acc: "acc = (rr, k)" by (cases acc)
  obtain ws k' where w: "randomWalkWithRestart g rand k (node_id node) steps p = (ws, k')"
    by (cases "randomWalkWithRestart g rand k (node_id node) steps p")
  have "has (nodes g) (node_id node)" using Cons.prems(1) by (simp add: x)
  from randomWalk_in_nodes [OF wf this, of rand k steps p]
  have "\<forall>i\<in>fst ` set ws. isNodeId g i" by (simp add: w)
  from combineScores_nodes [OF this, of rr s] Cons.prems(2)
  have "\<forall>r\<in>snd ` set (combineScores g s ws rr). rr_node r \<noteq> None"
    by (simp add: acc)
  then have "\<forall>r\<in>snd ` set (fst (rerankStep g rand steps p x acc)). rr_node r \<noteq> None"
    by (simp add: rerankStep_def x acc w)
  moreover have "\<forall>x\<in>set xs. has (nodes g) (node_id (fst x))"
    using Cons.prems(1) by simp
  ultimately show ?case
    using Cons.IH by simp
qed

text \<open>On a graph as \<^verbatim>\<open>createGraph\<close> builds it, a query of the right dimension returns.\<close>

lemma query_total:
  assumes wf: "edgesWithinNodes g" "nodesWellFormed g"
    and len: "length (qp_query qp) = dimension g"
  shows "\<exists>rs. query g rand k qp = Inr rs"
proof -
  let ?f = "\<lambda>node. case cosineSimilarity (Some (qp_query qp)) (node_embedding node) of
                      Inl e \<Rightarrow> Inl e | Inr similarity \<Rightarrow> Inr (node, similarity)"
  have "\<forall>node\<in>set (map snd (nodes g)). \<exists>y. ?f node = Inr y"
  proof
    fix node assume "node \<in> set (map snd (nodes g))"
    then obtain v where "node_embedding node = Some v" "length v = dimension g"
      using wf(2) by (auto simp: nodesWellFormed_def list_all_iff)
    then show "\<exists>y. ?f node = Inr y"
      using cosineSimilarity_total [of "qp_query qp" v] len by auto
  qed
  from mapM_total [OF this] obtain sims where
    sims: "mapM ?f (map snd (nodes g)) = Inr sims"
    and from_nodes: "\<forall>y\<in>set sims. \<exists>x\<in>set (map snd (nodes g)). ?f x = Inr y"
    by blast
  have ids: "has (nodes g) (node_id (fst y))" if "y \<in> set sims" for y
  proof -
    from from_nodes that obtain kn where kn: "kn \<in> set (nodes g)" "?f (snd kn) = Inr y"
      by auto
    then have "fst y = snd kn" by (auto split: sum.splits)
    moreover have "node_id (snd kn) = fst kn"
      using wf(2) kn(1) by (auto simp: nodesWellFormed_def list_all_iff)
    ultimately show ?thesis
      using kn(1) by (auto simp: has_def image_iff)
  qed
  define topK where "topK = (case qp_topK qp of None \<Rightarrow> 10 | Some x \<Rightarrow> x)"
  define steps where "steps = (case qp_randomWalkSteps qp of None \<Rightarrow> 100 | Some x \<Rightarrow> x)"
  define p where "p = (case qp_restartProb qp of None \<Rightarrow> 15 / 100 | Some x \<Rightarrow> (x::real))"
  define top where "top = slice0 (sortBy (\<lambda>a b. snd b - snd a) sims) topK"
  define rr where "rr = fst (fold (rerankStep g rand steps p) top ([], k))"
  have "\<forall>x\<in>set top. has (nodes g) (node_id (fst x))"
    using ids set_slice0 [of "sortBy (\<lambda>a b. snd b - snd a) sims" topK]
    unfolding top_def by auto
  from rerank_nodes [OF wf(1) this, of "([], k)" rand steps p]
  have ok: "\<forall>r\<in>snd ` set rr. rr_node r \<noteq> None"
    by (simp add: rr_def)
  have "\<forall>r\<in>set (slice0 (sortBy (\<lambda>a b. rr_score b - rr_score a) (map snd rr)) topK).
          \<exists>y. toRankedNode r = Inr y"
  proof
    fix r assume "r \<in> set (slice0 (sortBy (\<lambda>a b. rr_score b - rr_score a) (map snd rr)) topK)"
    then have "r \<in> snd ` set rr"
      using set_slice0 [of "sortBy (\<lambda>a b. rr_score b - rr_score a) (map snd rr)" topK] by auto
    with ok show "\<exists>y. toRankedNode r = Inr y"
      by (auto simp: toRankedNode_def split: option.splits)
  qed
  from mapM_total [OF this] obtain rs where
    "mapM toRankedNode (slice0 (sortBy (\<lambda>a b. rr_score b - rr_score a) (map snd rr)) topK) = Inr rs"
    by blast
  then have "query g rand k qp = Inr rs"
    using len sims
    by (simp add: query_def Let_def topK_def steps_def p_def top_def rr_def)
  then show ?thesis ..
qed


lemma slice0_Nil [simp]: "slice0 [] k = []"
  by (simp add: slice0_def Let_def)

lemma sortBy_Nil [simp]: "sortBy cmp [] = []"
  by (simp add: sortBy_def)

text \<open>
  C6. \<^verbatim>\<open>query\<close> with an embedding whose length differs from the graph's dimension fails
  with the error \<^verbatim>\<open>Query embedding must have dimension <d>\<close>; on a graph without nodes
  (and a matching dimension) it returns the empty list.
\<close>

theorem query_dimension_and_empty_graph:
  "(length (qp_query qp) \<noteq> dimension g \<longrightarrow>
      query g rand k qp =
        Inl (Error (''Query embedding must have dimension '' @ toString (dimension g))))
 \<and> (length (qp_query qp) = dimension g \<and> nodes g = [] \<longrightarrow> query g rand k qp = Inr [])"
  by (simp add: query_def Let_def)

theorem query_dimension_and_empty_graph_witness:
  "query (newGraphRAG 2 (7 / 10)) (\<lambda>_. 0) 0
      \<lparr>qp_query = [1], qp_topK = None, qp_randomWalkSteps = None, qp_restartProb = None\<rparr>
     = Inl (Error ''Query embedding must have dimension 2'')
   \<and> query (newGraphRAG 2 (7 / 10)) (\<lambda>_. 0) 0
      \<lparr>qp_query = [1, 0], qp_topK = None, qp_randomWalkSteps = None, qp_restartProb = None\<rparr>
     = Inr []"
proof -
  have t: "toString 2 = ''2''"
    by (simp add: toString.simps digitChar_def)
  note T = query_dimension_and_empty_graph [of _ "newGraphRAG 2 (7 / 10)" "\<lambda>_. 0" 0]
  have a: "query (newGraphRAG 2 (7 / 10)) (\<lambda>_. 0) 0
      \<lparr>qp_query = [1], qp_topK = None, qp_randomWalkSteps = None, qp_restartProb = None\<rparr>
     = Inl (Error ''Query embedding must have dimension 2'')"
    using T [of "\<lparr>qp_query = [1], qp_topK = None, qp_randomWalkSteps = None, qp_restartProb = None\<rparr>"]
    by (simp add: newGraphRAG_def t)
  have b: "query (newGraphRAG 2 (7 / 10)) (\<lambda>_. 0) 0
      \<lparr>qp_query = [1, 0], qp_topK = None, qp_randomWalkSteps = None, qp_restartProb = None\<rparr>
     = Inr []"
    using T [of "\<lparr>qp_query = [1, 0], qp_topK = None, qp_randomWalkSteps = None, qp_restartProb = None\<rparr>"]
    by (simp add: newGraphRAG_def)
  from a b show ?thesis ..
qed

section \<open>The graph cache\<close>

lemma cacheStage_hit:
  assumes "map_of graphCache (cacheKey e ctx) = Some c" "\<not> rebuildGraphOf ctx"
    and "env_now e - gc_createdAt c < CACHE_TTL_MS"
  shows "cacheStage e graphCache ctx q = (Inr (Proceed (gc_graph c) True None), graphCache)"
  using assms by (simp add: cacheStage_def isCacheValid_def Let_def)

lemma cacheStage_build:
  assumes "\<not> isCacheValid (map_of graphCache (cacheKey e ctx)) (rebuildGraphOf ctx) (env_now e)"
    and "env_store e (graphStoreQuery ctx q) = Inr rows" "rows \<noteq> []"
    and "createGraph (newGraphRAG 1536 (thresholdOf ctx)) (map resultChunk rows)
           (map resultEmbedding rows) = Inr g"
  shows "cacheStage e graphCache ctx q =
           (Inr (Proceed g False (Some (env_buildEnd e - env_buildStart e))),
            AList.update (cacheKey e ctx)
              \<lparr>gc_graph = g, gc_indexName = gx_indexName ctx, gc_createdAt = env_now e,
               gc_nodeCount = getNodeCount g\<rparr> graphCache)"
  using assms by (simp add: cacheStage_def Let_def)

lemma cacheStage_no_candidates:
  assumes "\<not> isCacheValid (map_of graphCache (cacheKey e ctx)) (rebuildGraphOf ctx) (env_now e)"
    and "env_store e (graphStoreQuery ctx q) = Inr []"
  shows "cacheStage e graphCache ctx q = (Inr (EarlyReturn emptyOutput), graphCache)"
  using assms by (simp add: cacheStage_def Let_def)

lemma cacheStage_store_fails:
  assumes "\<not> isCacheValid (map_of graphCache (cacheKey e ctx)) (rebuildGraphOf ctx) (env_now e)"
    and "env_store e (graphStoreQuery ctx q) = Inl err"
  shows "cacheStage e graphCache ctx q = (Inl err, graphCache)"
  using assms by (simp add: cacheStage_def Let_def)

lemma cacheStage_build_fails:
  assumes "\<not> isCacheValid (map_of graphCache (cacheKey e ctx)) (rebuildGraphOf ctx) (env_now e)"
    and "env_store e (graphStoreQuery ctx q) = Inr rows" "rows \<noteq> []"
    and "createGraph (newGraphRAG 1536 (thresholdOf ctx)) (map resultChunk rows)
           (map resultEmbedding rows) = Inl err"
  shows "cacheStage e graphCache ctx q = (Inl err, graphCache)"
  using assms by (simp add: cacheStage_def Let_def)

lemma execute_stage:
  assumes "env_connectionString e = Some cs" "cs \<noteq> []" "env_embed e (gx_queryText ctx) = Inr q"
  shows "execute e graphCache ctx =
     (case cacheStage e graphCache ctx q of
        (Inl err, graphCache') \<Rightarrow> (Inl err, graphCache')
      | (Inr (EarlyReturn out), graphCache') \<Rightarrow> (Inr out, graphCache')
      | (Inr (Proceed graphRAG cacheHit buildTimeMs), graphCache') \<Rightarrow>
          (case query graphRAG (env_random e) 0
                  \<lparr>qp_query = q,
                   qp_topK = Some (case gx_topK ctx of None \<Rightarrow> 10 | Some k \<Rightarrow> k),
                   qp_randomWalkSteps = Some (optionOr 100 go_randomWalkSteps ctx),
                   qp_restartProb = Some (optionOr (15 / 100) go_restartProb ctx)\<rparr> of
             Inl err \<Rightarrow> (Inl err, graphCache')
           | Inr rerankedResults \<Rightarrow>
               (Inr \<lparr>out_relevantContext =
                       map (\<lambda>result. case rn_metadata result of
                                        None \<Rightarrow> noMetadata | Some m \<Rightarrow> m)
                           rerankedResults,
                     out_sources = map rankedSource rerankedResults,
                     out_graphStats =
                       \<lparr>st_nodeCount = getNodeCount graphRAG,
                        st_edgeCount = getEdgeCount graphRAG,
                        st_cacheHit = cacheHit,
                        st_buildTimeMs = buildTimeMs\<rparr>\<rparr>,
                graphCache')))"
  using assms by (simp add: execute_def)

lemma execute_reports:
  assumes "env_connectionString e = Some cs" "cs \<noteq> []" "env_embed e (gx_queryText ctx) = Inr q"
    and "cacheStage e graphCache ctx q = (Inr (Proceed g hit bt), graphCache')"
    and "execute e graphCache ctx = (Inr out, graphCache'')"
  shows "graphCache'' = graphCache' \<and> st_cacheHit (out_graphStats out) = hit
       \<and> st_buildTimeMs (out_graphStats out) = bt
       \<and> st_nodeCount (out_graphStats out) = getNodeCount g"
  using assms(4,5) unfolding execute_stage [OF assms(1-3)]
  by (auto split: sum.splits)

lemma createGraph_dimension:
  assumes "createGraph (newGraphRAG d t) chunks embeddings = Inr g"
  shows "dimension g = d"
proof -
  from assms have ne: "chunks \<noteq> []" and len: "length chunks = length embeddings"
    by (auto simp: createGraph_def split: if_splits)
  from createGraph_success [OF ne len createGraph_dims [OF len assms], of t] assms
  show ?thesis by simp
qed

lemma execute_proceed:
  assumes conn: "env_connectionString e = Some cs" "cs \<noteq> []"
    and emb: "env_embed e (gx_queryText ctx) = Inr q"
    and stage: "cacheStage e graphCache ctx q = (Inr (Proceed g hit bt), graphCache')"
    and wf: "edgesWithinNodes g" "nodesWellFormed g" "length q = dimension g"
  shows "\<exists>out. execute e graphCache ctx = (Inr out, graphCache')
            \<and> st_cacheHit (out_graphStats out) = hit
            \<and> st_buildTimeMs (out_graphStats out) = bt
            \<and> st_nodeCount (out_graphStats out) = getNodeCount g"
proof -
  let ?qp = "\<lparr>qp_query = q,
               qp_topK = Some (case gx_topK ctx of None \<Rightarrow> 10 | Some k \<Rightarrow> k),
               qp_randomWalkSteps = Some (optionOr 100 go_randomWalkSteps ctx),
               qp_restartProb = Some (optionOr (15 / 100) go_restartProb ctx)\<rparr>"
  from query_total [OF wf(1,2), of ?qp "env_random e" 0] wf(3)
  obtain rs where "query g (env_random e) 0 ?qp = Inr rs" by auto
  then show ?thesis
    unfolding execute_stage [OF conn emb] by (simp add: stage)
qed

lemma buildGraph_wf:
  assumes "buildGraph ctx rows = Inr g"
  shows "edgesWithinNodes g" "nodesWellFormed g" "dimension g = 1536"
  using assms createGraph_edgesWithinNodes createGraph_nodesWellFormed createGraph_dimension
  unfolding buildGraph_def by blast+

lemma isCacheValid_fresh: "\<not> isCacheValid None rebuild now"
  by (simp add: isCacheValid_def)

lemma isCacheValid_expired:
  "CACHE_TTL_MS \<le> now - gc_createdAt c \<Longrightarrow> \<not> isCacheValid (Some c) rebuild now"
  by (simp add: isCacheValid_def)

lemma isCacheValid_forced: "\<not> isCacheValid cached True now"
  by (simp add: isCacheValid_def split: option.splits)

lemma map_of_update_same: "map_of (AList.update k v al) k = Some v"
  by (simp add: update_conv')

lemma cacheStage_build':
  assumes "\<not> isCacheValid (map_of graphCache (cacheKey e ctx)) (rebuildGraphOf ctx) (env_now e)"
    and "env_store e (graphStoreQuery ctx q) = Inr rows" "rows \<noteq> []"
    and "buildGraph ctx rows = Inr g"
  shows "cacheStage e graphCache ctx q =
           (Inr (Proceed g False (Some (env_buildEnd e - env_buildStart e))),
            AList.update (cacheKey e ctx) (cacheEntry g ctx (env_now e)) graphCache)"
  using cacheStage_build [OF assms(1-3) assms(4) [unfolded buildGraph_def]]
  by (simp add: cacheEntry_def)

text \<open>
  C4 (as the code has it). Three calls with the same cache key. The first finds no entry
  under the key; when the store returns at least one candidate and the graph is built,
  it stores the graph under the key with the time of the call and reports
  \<^verbatim>\<open>cacheHit = false\<close> and the build time. A second call without \<^verbatim>\<open>rebuildGraph\<close>, less
  than \<^verbatim>\<open>CACHE_TTL_MS\<close> (30 minutes) after the first, uses that very graph, whatever the
  store would answer, leaves the cache as it is and reports \<^verbatim>\<open>cacheHit = true\<close> and no
  build time. A third call, at least \<^verbatim>\<open>CACHE_TTL_MS\<close> after the first, builds again (given
  candidates and a successful build), overwrites the entry of the key and reports
  \<^verbatim>\<open>cacheHit = false\<close>. In the three calls the query embedding has the dimension of
  the graph, 1536. A call that finds no valid entry (absent, expired, or \<^verbatim>\<open>rebuildGraph\<close>)
  and gets no candidate from the store builds and stores nothing: it returns no sources
  with \<^verbatim>\<open>cacheHit = false\<close> and \<^verbatim>\<open>buildTimeMs = 0\<close>, the cache is what it was, and where the
  key had no entry the next lookup is a miss again.
\<close>

theorem graph_cache_protocol:
  assumes conn: "env_connectionString e1 = Some cs1" "cs1 \<noteq> []"
      "env_connectionString e2 = Some cs2" "cs2 \<noteq> []"
      "env_connectionString e3 = Some cs3" "cs3 \<noteq> []"
    and emb: "env_embed e1 (gx_queryText ctx1) = Inr q1" "length q1 = 1536"
      "env_embed e2 (gx_queryText ctx2) = Inr q2" "length q2 = 1536"
      "env_embed e3 (gx_queryText ctx3) = Inr q3" "length q3 = 1536"
    and key: "cacheKey e1 ctx1 = key" "cacheKey e2 ctx2 = key" "cacheKey e3 ctx3 = key"
    and fresh: "map_of graphCache key = None"
    and build1: "env_store e1 (graphStoreQuery ctx1 q1) = Inr rows1" "rows1 \<noteq> []"
      "buildGraph ctx1 rows1 = Inr g1"
    and cache1: "cache1 = AList.update key (cacheEntry g1 ctx1 (env_now e1)) graphCache"
  shows "cacheStage e1 graphCache ctx1 q1 =
           (Inr (Proceed g1 False (Some (env_buildEnd e1 - env_buildStart e1))), cache1)
     \<and> (\<exists>out. execute e1 graphCache ctx1 = (Inr out, cache1)
            \<and> st_cacheHit (out_graphStats out) = False
            \<and> st_buildTimeMs (out_graphStats out) = Some (env_buildEnd e1 - env_buildStart e1))
     \<and> (\<not> rebuildGraphOf ctx2 \<and> env_now e2 - env_now e1 < CACHE_TTL_MS \<longrightarrow>
           cacheStage e2 cache1 ctx2 q2 = (Inr (Proceed g1 True None), cache1)
         \<and> (\<forall>store. cacheStage (e2\<lparr>env_store := store\<rparr>) cache1 ctx2 q2
                       = (Inr (Proceed g1 True None), cache1))
         \<and> (\<exists>out. execute e2 cache1 ctx2 = (Inr out, cache1)
                \<and> st_cacheHit (out_graphStats out) = True
                \<and> st_buildTimeMs (out_graphStats out) = None))
     \<and> (CACHE_TTL_MS \<le> env_now e3 - env_now e1
          \<and> env_store e3 (graphStoreQuery ctx3 q3) = Inr rows3 \<and> rows3 \<noteq> []
          \<and> buildGraph ctx3 rows3 = Inr g3 \<longrightarrow>
           cacheStage e3 cache1 ctx3 q3 =
             (Inr (Proceed g3 False (Some (env_buildEnd e3 - env_buildStart e3))),
              AList.update key (cacheEntry g3 ctx3 (env_now e3)) cache1)
         \<and> map_of (AList.update key (cacheEntry g3 ctx3 (env_now e3)) cache1) key
              = Some (cacheEntry g3 ctx3 (env_now e3))
         \<and> (\<exists>out. execute e3 cache1 ctx3
                       = (Inr out, AList.update key (cacheEntry g3 ctx3 (env_now e3)) cache1)
                \<and> st_cacheHit (out_graphStats out) = False
                \<and> st_buildTimeMs (out_graphStats out) = Some (env_buildEnd e3 - env_buildStart e3)))
     \<and> (env_connectionString e0 = Some cs0 \<and> cs0 \<noteq> []
          \<and> env_embed e0 (gx_queryText ctx0) = Inr q0
          \<and> \<not> isCacheValid (map_of cache0 (cacheKey e0 ctx0)) (rebuildGraphOf ctx0) (env_now e0)
          \<and> env_store e0 (graphStoreQuery ctx0 q0) = Inr [] \<longrightarrow>
           execute e0 cache0 ctx0 = (Inr emptyOutput, cache0)
         \<and> out_sources emptyOutput = []
         \<and> st_cacheHit (out_graphStats emptyOutput) = False
         \<and> st_buildTimeMs (out_graphStats emptyOutput) = Some 0
         \<and> (map_of cache0 (cacheKey e0 ctx0) = None \<longrightarrow>
               \<not> isCacheValid (map_of (snd (execute e0 cache0 ctx0)) (cacheKey e0 ctx0)) rebuild now))"
proof (intro conjI impI)
  have miss1: "\<not> isCacheValid (map_of graphCache (cacheKey e1 ctx1)) (rebuildGraphOf ctx1) (env_now e1)"
    by (simp add: key fresh isCacheValid_fresh)
  show s1: "cacheStage e1 graphCache ctx1 q1 =
           (Inr (Proceed g1 False (Some (env_buildEnd e1 - env_buildStart e1))), cache1)"
    using cacheStage_build' [OF miss1 build1] by (simp add: key cache1)
  note wf1 = buildGraph_wf [OF build1(3)]
  show "\<exists>out. execute e1 graphCache ctx1 = (Inr out, cache1)
            \<and> st_cacheHit (out_graphStats out) = False
            \<and> st_buildTimeMs (out_graphStats out) = Some (env_buildEnd e1 - env_buildStart e1)"
    using execute_proceed [OF conn(1,2) emb(1) s1 wf1(1,2)] emb(2) wf1(3) by auto
next
  assume a: "\<not> rebuildGraphOf ctx2 \<and> env_now e2 - env_now e1 < CACHE_TTL_MS"
  have look: "map_of cache1 (cacheKey e2 ctx2) = Some (cacheEntry g1 ctx1 (env_now e1))"
    by (simp add: cache1 key map_of_update_same)
  show s2: "cacheStage e2 cache1 ctx2 q2 = (Inr (Proceed g1 True None), cache1)"
    using cacheStage_hit [OF look, of q2] a by (simp add: cacheEntry_def)
  show "\<forall>store. cacheStage (e2\<lparr>env_store := store\<rparr>) cache1 ctx2 q2
                       = (Inr (Proceed g1 True None), cache1)"
  proof
    fix store
    have "map_of cache1 (cacheKey (e2\<lparr>env_store := store\<rparr>) ctx2)
        = Some (cacheEntry g1 ctx1 (env_now e1))"
      using look by (simp add: cacheKey_def)
    from cacheStage_hit [OF this, of q2] a
    show "cacheStage (e2\<lparr>env_store := store\<rparr>) cache1 ctx2 q2
                       = (Inr (Proceed g1 True None), cache1)"
      by (simp add: cacheEntry_def)
  qed
  note wf1 = buildGraph_wf [OF build1(3)]
  show "\<exists>out. execute e2 cache1 ctx2 = (Inr out, cache1)
                \<and> st_cacheHit (out_graphStats out) = True
                \<and> st_buildTimeMs (out_graphStats out) = None"
    using execute_proceed [OF conn(3,4) emb(3) s2 wf1(1,2)] emb(4) wf1(3) by auto
next
  assume a: "CACHE_TTL_MS \<le> env_now e3 - env_now e1
          \<and> env_store e3 (graphStoreQuery ctx3 q3) = Inr rows3 \<and> rows3 \<noteq> []
          \<and> buildGraph ctx3 rows3 = Inr g3"
  have look: "map_of cache1 (cacheKey e3 ctx3) = Some (cacheEntry g1 ctx1 (env_now e1))"
    by (simp add: cache1 key map_of_update_same)
  have miss3: "\<not> isCacheValid (map_of cache1 (cacheKey e3 ctx3)) (rebuildGraphOf ctx3) (env_now e3)"
    unfolding look using a by (intro isCacheValid_expired) (simp add: cacheEntry_def)
  from a have b: "env_store e3 (graphStoreQuery ctx3 q3) = Inr rows3" "rows3 \<noteq> []"
    "buildGraph ctx3 rows3 = Inr g3" by simp_all
  show s3: "cacheStage e3 cache1 ctx3 q3 =
             (Inr (Proceed g3 False (Some (env_buildEnd e3 - env_buildStart e3))),
              AList.update key (cacheEntry g3 ctx3 (env_now e3)) cache1)"
    using cacheStage_build' [OF miss3 b] by (simp add: key)
  show "map_of (AList.update key (cacheEntry g3 ctx3 (env_now e3)) cache1) key
              = Some (cacheEntry g3 ctx3 (env_now e3))"
    by (rule map_of_update_same)
  note wf3 = buildGraph_wf [OF b(3)]
  show "\<exists>out. execute e3 cache1 ctx3
                       = (Inr out, AList.update key (cacheEntry g3 ctx3 (env_now e3)) cache1)
                \<and> st_cacheHit (out_graphStats out) = False
                \<and> st_buildTimeMs (out_graphStats out) = Some (env_buildEnd e3 - env_buildStart e3)"
    using execute_proceed [OF conn(5,6) emb(5) s3 wf3(1,2)] emb(6) wf3(3) by auto
next
  assume a: "env_connectionString e0 = Some cs0 \<and> cs0 \<noteq> []
          \<and> env_embed e0 (gx_queryText ctx0) = Inr q0
          \<and> \<not> isCacheValid (map_of cache0 (cacheKey e0 ctx0)) (rebuildGraphOf ctx0) (env_now e0)
          \<and> env_store e0 (graphStoreQuery ctx0 q0) = Inr []"
  then have b: "env_connectionString e0 = Some cs0" "cs0 \<noteq> []"
    "env_embed e0 (gx_queryText ctx0) = Inr q0"
    "\<not> isCacheValid (map_of cache0 (cacheKey e0 ctx0)) (rebuildGraphOf ctx0) (env_now e0)"
    "env_store e0 (graphStoreQuery ctx0 q0) = Inr []"
    by simp_all
  show x: "execute e0 cache0 ctx0 = (Inr emptyOutput, cache0)"
    unfolding execute_stage [OF b(1-3)] by (simp add: cacheStage_no_candidates [OF b(4,5)])
  show "out_sources emptyOutput = []" "st_cacheHit (out_graphStats emptyOutput) = False"
    "st_buildTimeMs (out_graphStats emptyOutput) = Some 0"
    by (simp_all add: emptyOutput_def)
  show "\<not> isCacheValid (map_of (snd (execute e0 cache0 ctx0)) (cacheKey e0 ctx0)) rebuild now"
    if "map_of cache0 (cacheKey e0 ctx0) = None"
    using that by (simp add: x isCacheValid_fresh)
qed

lemma exampleCtx_simps:
  "thresholdOf exampleCtx = 7 / 10" "rebuildGraphOf exampleCtx = False"
  "cacheKey (exampleEnv rows now) exampleCtx = ''videos_0.7''"
  "gx_queryText exampleCtx = ''cats''"
  by (simp_all add: thresholdOf_def rebuildGraphOf_def optionOr_def exampleCtx_def cacheKey_def
      exampleEnv_def)

lemma exampleEnv_simps:
  "env_connectionString (exampleEnv rows now) = Some ''postgres://db''"
  "env_embed (exampleEnv rows now) s = Inr (replicate 1536 1)"
  "env_store (exampleEnv rows now) sq = Inr rows"
  "env_now (exampleEnv rows now) = now"
  "env_buildEnd (exampleEnv rows now) - env_buildStart (exampleEnv rows now) = 5"
  by (simp_all add: exampleEnv_def)

lemma exampleRows_build: "\<exists>g. buildGraph exampleCtx exampleRows = Inr g"
proof -
  have "\<exists>g. createGraph (newGraphRAG 1536 (7 / 10)) (map resultChunk exampleRows)
               (map resultEmbedding exampleRows) = Inr g"
    using createGraph_success [of "map resultChunk exampleRows" "map resultEmbedding exampleRows"
        1536 "7 / 10"]
    by (auto simp: exampleRows_def resultEmbedding_def)
  then show ?thesis
    by (simp add: buildGraph_def exampleCtx_simps)
qed

theorem graph_cache_protocol_witness:
  "\<exists>g. buildGraph exampleCtx exampleRows = Inr g
     \<and> cacheStage (exampleEnv exampleRows 0) [] exampleCtx (replicate 1536 1)
         = (Inr (Proceed g False (Some 5)), [(''videos_0.7'', cacheEntry g exampleCtx 0)])
     \<and> cacheStage (exampleEnv exampleRows 1000) [(''videos_0.7'', cacheEntry g exampleCtx 0)]
           exampleCtx (replicate 1536 1)
         = (Inr (Proceed g True None), [(''videos_0.7'', cacheEntry g exampleCtx 0)])
     \<and> (\<exists>out. execute (exampleEnv exampleRows 1000) [(''videos_0.7'', cacheEntry g exampleCtx 0)]
                  exampleCtx
                = (Inr out, [(''videos_0.7'', cacheEntry g exampleCtx 0)])
             \<and> st_cacheHit (out_graphStats out) = True)
     \<and> cacheStage (exampleEnv exampleRows 1800000) [(''videos_0.7'', cacheEntry g exampleCtx 0)]
           exampleCtx (replicate 1536 1)
         = (Inr (Proceed g False (Some 5)), [(''videos_0.7'', cacheEntry g exampleCtx 1800000)])
     \<and> execute (exampleEnv [] 0) [] exampleCtx = (Inr emptyOutput, [])"
proof -
  from exampleRows_build obtain g where g: "buildGraph exampleCtx exampleRows = Inr g" ..
  have ne: "exampleRows \<noteq> []" by (simp add: exampleRows_def)
  have c: "''postgres://db'' \<noteq> []" by simp
  have l: "length (replicate 1536 (1::real)) = 1536" by simp
  have c1: "[(''videos_0.7'', cacheEntry g exampleCtx 0)]
      = AList.update ''videos_0.7'' (cacheEntry g exampleCtx (env_now (exampleEnv exampleRows 0))) []"
    by (simp add: exampleEnv_simps)
  note T = graph_cache_protocol [where ?e1.0 = "exampleEnv exampleRows 0"
      and ?e2.0 = "exampleEnv exampleRows 1000" and ?e3.0 = "exampleEnv exampleRows 1800000"
      and ?ctx1.0 = exampleCtx and ?ctx2.0 = exampleCtx and ?ctx3.0 = exampleCtx
      and key = "''videos_0.7''" and graphCache = "[]" and ?rows1.0 = exampleRows
      and ?g1.0 = g and ?rows3.0 = exampleRows and ?g3.0 = g
      and ?e0.0 = "exampleEnv [] 0" and ?cs0.0 = "''postgres://db''" and ?ctx0.0 = exampleCtx
      and ?q0.0 = "replicate 1536 1" and ?cache0.0 = "[]",
      OF exampleEnv_simps(1) c exampleEnv_simps(1) c exampleEnv_simps(1) c
        exampleEnv_simps(2) l exampleEnv_simps(2) l exampleEnv_simps(2) l
        exampleCtx_simps(3) exampleCtx_simps(3) exampleCtx_simps(3) _
        exampleEnv_simps(3) ne g c1]
  have T': "cacheStage (exampleEnv exampleRows 0) [] exampleCtx (replicate 1536 1)
         = (Inr (Proceed g False (Some 5)), [(''videos_0.7'', cacheEntry g exampleCtx 0)])
     \<and> cacheStage (exampleEnv exampleRows 1000) [(''videos_0.7'', cacheEntry g exampleCtx 0)]
           exampleCtx (replicate 1536 1)
         = (Inr (Proceed g True None), [(''videos_0.7'', cacheEntry g exampleCtx 0)])
     \<and> (\<exists>out. execute (exampleEnv exampleRows 1000) [(''videos_0.7'', cacheEntry g exampleCtx 0)]
                  exampleCtx
                = (Inr out, [(''videos_0.7'', cacheEntry g exampleCtx 0)])
             \<and> st_cacheHit (out_graphStats out) = True)
     \<and> cacheStage (exampleEnv exampleRows 1800000) [(''videos_0.7'', cacheEntry g exampleCtx 0)]
           exampleCtx (replicate 1536 1)
         = (Inr (Proceed g False (Some 5)), [(''videos_0.7'', cacheEntry g exampleCtx 1800000)])
     \<and> execute (exampleEnv [] 0) [] exampleCtx = (Inr emptyOutput, [])"
    using T ne g
    by (simp add: exampleEnv_simps exampleCtx_simps CACHE_TTL_MS_def isCacheValid_fresh) blast
  with g show ?thesis by blast
qed

text \<open>
  A build that finds no candidate stores nothing: the first call with a fresh key
  returns the early result and leaves the cache empty, and so does the call after it.
\<close>

theorem graph_cache_no_candidates:
  "execute (exampleEnv [] 0) [] exampleCtx = (Inr emptyOutput, [])
   \<and> execute (exampleEnv [] 1) (snd (execute (exampleEnv [] 0) [] exampleCtx)) exampleCtx
       = (Inr emptyOutput, [])
   \<and> st_cacheHit (out_graphStats emptyOutput) = False"
proof -
  have "execute (exampleEnv [] now) [] exampleCtx = (Inr emptyOutput, [])" for now
    by (simp add: execute_def cacheStage_def isCacheValid_def exampleEnv_simps exampleCtx_simps
        Let_def)
  then show ?thesis
    by (simp add: emptyOutput_def)
qed

text \<open>
  C8. On a cache miss or a forced rebuild (the entry of the key is absent, expired, or
  \<^verbatim>\<open>rebuildGraph\<close> is set), when the store query fails or \<^verbatim>\<open>createGraph\<close> throws, the call
  fails with that error and the whole cache map is what it was before the call.
\<close>

theorem build_failure_keeps_cache:
  assumes "env_connectionString e = Some cs" "cs \<noteq> []"
    and "env_embed e (gx_queryText ctx) = Inr q"
    and "\<not> isCacheValid (map_of graphCache (cacheKey e ctx)) (rebuildGraphOf ctx) (env_now e)"
    and "env_store e (graphStoreQuery ctx q) = Inl err
         \<or> (\<exists>rows. env_store e (graphStoreQuery ctx q) = Inr rows \<and> rows \<noteq> []
                 \<and> buildGraph ctx rows = Inl err)"
  shows "execute e graphCache ctx = (Inl err, graphCache)"
proof -
  have "cacheStage e graphCache ctx q = (Inl err, graphCache)"
    using assms(5)
  proof
    assume "env_store e (graphStoreQuery ctx q) = Inl err"
    then show ?thesis by (rule cacheStage_store_fails [OF assms(4)])
  next
    assume "\<exists>rows. env_store e (graphStoreQuery ctx q) = Inr rows \<and> rows \<noteq> []
                 \<and> buildGraph ctx rows = Inl err"
    then obtain rows where "env_store e (graphStoreQuery ctx q) = Inr rows" "rows \<noteq> []"
      "buildGraph ctx rows = Inl err" by blast
    then show ?thesis
      unfolding buildGraph_def by (rule cacheStage_build_fails [OF assms(4)])
  qed
  then show ?thesis
    unfolding execute_stage [OF assms(1-3)] by simp
qed

lemma toString_1536: "toString 1536 = ''1536''"
  by (simp add: toString.simps digitChar_def)

lemma exampleBadRows_build:
  "buildGraph exampleCtx exampleBadRows = Inl (Error ''Embedding dimension must be 1536'')"
  by (simp add: buildGraph_def exampleBadRows_def createGraph_def resultChunk_def
      resultEmbedding_def addNode_def chunkNode_def vectorAt_def newGraphRAG_def toString_1536)

theorem build_failure_keeps_cache_witness:
  "execute (exampleEnv exampleBadRows 1800000)
      [(''videos_0.7'', cacheEntry exampleGraph exampleCtx 0)] exampleCtx
    = (Inl (Error ''Embedding dimension must be 1536''),
       [(''videos_0.7'', cacheEntry exampleGraph exampleCtx 0)])"
proof (rule build_failure_keeps_cache)
  show "env_connectionString (exampleEnv exampleBadRows 1800000) = Some ''postgres://db''"
    by (rule exampleEnv_simps)
  show "''postgres://db'' \<noteq> []" by simp
  show "env_embed (exampleEnv exampleBadRows 1800000) (gx_queryText exampleCtx) = Inr (replicate 1536 1)"
    by (rule exampleEnv_simps)
  show "\<not> isCacheValid
        (map_of [(''videos_0.7'', cacheEntry exampleGraph exampleCtx 0)]
           (cacheKey (exampleEnv exampleBadRows 1800000) exampleCtx))
        (rebuildGraphOf exampleCtx) (env_now (exampleEnv exampleBadRows 1800000))"
    by (simp add: exampleCtx_simps exampleEnv_simps isCacheValid_def cacheEntry_def CACHE_TTL_MS_def)
  show "env_store (exampleEnv exampleBadRows 1800000) (graphStoreQuery exampleCtx (replicate 1536 1))
          = Inl (Error ''Embedding dimension must be 1536'')
      \<or> (\<exists>rows. env_store (exampleEnv exampleBadRows 1800000)
                   (graphStoreQuery exampleCtx (replicate 1536 1)) = Inr rows
              \<and> rows \<noteq> []
              \<and> buildGraph exampleCtx rows = Inl (Error ''Embedding dimension must be 1536''))"
    using exampleBadRows_build by (simp add: exampleEnv_simps exampleBadRows_def)
qed


section \<open>The filter compiler\<close>

lemma processOperator_unrecognized:
  "op \<notin> set filterOperators \<Longrightarrow> processOperator key (op, val) b = Inr b"
  by (simp add: processOperator_def filterOperators_def Let_def)

lemma processOperators_filter:
  "forEachM (processOperator key) ops b =
     forEachM (processOperator key) (filter (\<lambda>ov. fst ov \<in> set filterOperators) ops) b"
proof (induction ops arbitrary: b)
  case Nil
  then show ?case by simp
next
  case (Cons ov ops)
  obtain op val where ov: "ov = (op, val)" by (cases ov)
  show ?case
  proof (cases "op \<in> set filterOperators")
    case True
    then show ?thesis
      using Cons.IH by (simp add: ov split: sum.splits)
  next
    case False
    then show ?thesis
      using Cons.IH by (simp add: ov processOperator_unrecognized)
  qed
qed

lemma buildFilterQuery_field:
  assumes "key \<noteq> ''$and''" "key \<noteq> ''$or''" "key \<noteq> ''$not''"
  shows "buildFilterQuery (JObj [(key, val)]) i =
     (case processField key val \<lparr>conditions = [], params = [], currentIndex = i\<rparr> of
        Inl e \<Rightarrow> Inl e | Inr b \<Rightarrow> Inr (finish b))"
  using assms by (simp add: buildFilterQuery.simps split: sum.splits)

lemma processOperator_between:
  "processOperator key (''$between'', JArr bounds) b =
     Inr (push b (''CAST('' @ jsonPathOf key @ '' AS NUMERIC) BETWEEN '' @ placeholder (currentIndex b)
                    @ '' AND '' @ placeholder (currentIndex b + 1))
            [PValue (if 0 < length bounds then bounds ! 0 else JUndefined),
             PValue (if 1 < length bounds then bounds ! 1 else JUndefined)] 2)"
  by (simp add: processOperator_def jsElem_def Let_def)

lemma dropUnrecognized_JObj: "dropUnrecognized (JObj kvs) = JObj (map dropEntry kvs)"
  by (simp add: dropEntry_def)

lemma processOperator_TypeError:
  "processOperator key ov b = Inl err \<Longrightarrow> isTypeError err"
  by (cases ov)
     (auto simp: processOperator_def jsElem_def Let_def isTypeError_def
        split: if_splits json.splits sum.splits)

lemma forEachM_error:
  assumes "\<And>x s err. f x s = Inl err \<Longrightarrow> P err"
  shows "forEachM f xs s = Inl err \<Longrightarrow> P err"
  by (induction xs arbitrary: s) (auto split: sum.splits dest: assms)

lemma operators_TypeError:
  assumes "forEachM (processOperator key) ops b = Inl err"
  shows "isTypeError err"
  using processOperator_TypeError assms by (rule forEachM_error)

lemma processField_TypeError:
  "processField key val b = Inl err \<Longrightarrow> isTypeError err"
  by (cases val) (auto simp: processField_def dest: operators_TypeError)

lemma fields_TypeError:
  "forEachM (\<lambda>(key, val). processField key val) kvs b = Inl err \<Longrightarrow> isTypeError err"
  by (rule forEachM_error [where P = isTypeError]) (auto dest: processField_TypeError)

lemma compile_TypeError:
  "\<forall>err. buildFilterQuery f i = Inl err \<longrightarrow> isTypeError err"
  "\<forall>err. processEntries kvs b = Inl err \<longrightarrow> isTypeError err"
  "\<forall>err. subFilters subs b2 = Inl err \<longrightarrow> isTypeError err"
proof (induction f i and kvs b and subs b2 rule: buildFilterQuery_processEntries_subFilters.induct)
  case (1 filterExpr paramIndex)
  show ?case
  proof (intro allI impI)
    fix err assume e: "buildFilterQuery filterExpr paramIndex = Inl err"
    show "isTypeError err"
    proof (cases filterExpr)
      case (JObj kvs)
      with e 1 show ?thesis
        by (auto simp: buildFilterQuery.simps split: sum.splits)
    next
      case (JArr xs)
      with e show ?thesis
        by (auto simp: buildFilterQuery.simps split: sum.splits dest: fields_TypeError)
    next
      case (JStr s)
      with e show ?thesis
        by (auto simp: buildFilterQuery.simps split: sum.splits dest: fields_TypeError)
    qed (use e in \<open>auto simp: buildFilterQuery.simps isTypeError_def split: sum.splits\<close>)
  qed
next
  case (2 b)
  show ?case by (simp add: buildFilterQuery.simps)
next
  case (3 kv rest b)
  show ?case
  proof (intro allI impI)
    fix err assume e: "processEntries (kv # rest) b = Inl err"
    show "isTypeError err"
      using e 3
      by (auto simp: buildFilterQuery.simps isTypeError_def
          split: if_splits json.splits sum.splits prod.splits
          dest: processField_TypeError)
  qed
next
  case (4 b)
  show ?case by (simp add: buildFilterQuery.simps)
next
  case (5 subFilter rest b)
  show ?case
  proof (intro allI impI)
    fix err assume e: "subFilters (subFilter # rest) b = Inl err"
    show "isTypeError err"
      using e 5
      by (auto simp: buildFilterQuery.simps split: sum.splits prod.splits)
  qed
qed

lemma processField_recognizedOnly:
  "processField key (recognizedOnly val) b = processField key val b"
  using processOperators_filter [of key _ b]
  by (cases val) (simp_all add: processField_def recognizedOnly_def)

lemma enumerate_map_snd:
  "enumerate n (map f xs) = map (\<lambda>ix. (fst ix, f (snd ix))) (enumerate n xs)"
  by (induction xs arbitrary: n) simp_all

lemma indexed_map: "indexed (map f xs) = map (\<lambda>kv. (fst kv, f (snd kv))) (indexed xs)"
  by (simp add: indexed_def enumerate_map_snd case_prod_beta)

lemma fields_recognizedOnly:
  "forEachM (\<lambda>(key, val). processField key val) (map (\<lambda>kv. (fst kv, recognizedOnly (snd kv))) kvs) b =
   forEachM (\<lambda>(key, val). processField key val) kvs b"
  by (induction kvs arbitrary: b)
     (simp_all add: processField_recognizedOnly case_prod_beta split: sum.splits)

lemma compile_drop:
  "buildFilterQuery (dropUnrecognized f) i = buildFilterQuery f i"
  "processEntries (map dropEntry kvs) b = processEntries kvs b"
  "subFilters (map dropUnrecognized subs) b2 = subFilters subs b2"
proof (induction f i and kvs b and subs b2 rule: buildFilterQuery_processEntries_subFilters.induct)
  case (1 filterExpr paramIndex)
  show ?case
  proof (cases filterExpr)
    case (JObj kvs)
    with 1 show ?thesis
      by (simp add: buildFilterQuery.simps [of "JObj _"] dropUnrecognized_JObj
          del: dropUnrecognized.simps(1))
  next
    case (JArr xs)
    then show ?thesis
      by (simp add: buildFilterQuery.simps [of "JArr _"] indexed_map fields_recognizedOnly)
  qed simp_all
next
  case (2 b)
  show ?case by simp
next
  case (3 kv rest b)
  show ?case
  proof (cases "fst kv = ''$and'' \<or> fst kv = ''$or''")
    case True
    show ?thesis
    proof (cases "snd kv")
      case (JArr subs)
      with True 3 show ?thesis
        by (auto simp: buildFilterQuery.simps dropEntry_def split: sum.splits prod.splits)
    qed (use True 3 in \<open>auto simp: buildFilterQuery.simps dropEntry_def split: sum.splits prod.splits\<close>)
  next
    case False
    show ?thesis
    proof (cases "fst kv = ''$not''")
      case True
      with False 3 show ?thesis
        by (auto simp: buildFilterQuery.simps dropEntry_def split: sum.splits prod.splits)
    next
      case n: False
      with False 3 show ?thesis
        by (auto simp: buildFilterQuery.simps dropEntry_def processField_recognizedOnly
            split: sum.splits prod.splits)
    qed
  qed
next
  case (4 b)
  show ?case by simp
next
  case (5 subFilter rest b)
  then show ?case
    by (auto simp: buildFilterQuery.simps split: sum.splits prod.splits)
qed

text \<open>
  C2 (as the code has it). \<^verbatim>\<open>buildFilterQuery\<close> does not validate operators or bounds.
  On every filter, a failure of the compiler is a \<^verbatim>\<open>TypeError\<close> of the runtime, never an
  error the compiler throws; and every filter compiles to what it compiles to without its
  operators outside the recognized set: they are skipped, wherever they stand. For a
  filter of one field constraint: the operators outside the set are skipped, a constraint
  with only such an operator compiles to the empty query with no parameter, and a
  \<^verbatim>\<open>$between\<close> with a bound array of any length compiles to a \<open>BETWEEN\<close> condition whose
  two parameters are the elements at positions 0 and 1, \<^verbatim>\<open>undefined\<close> where the array is
  shorter.
\<close>

theorem buildFilterQuery_does_not_validate:
  "(\<forall>err. buildFilterQuery f i = Inl err \<longrightarrow> (\<exists>m. err = TypeError m))
   \<and> buildFilterQuery f i = buildFilterQuery (dropUnrecognized f) i
   \<and> (key \<noteq> ''$and'' \<and> key \<noteq> ''$or'' \<and> key \<noteq> ''$not'' \<longrightarrow>
        buildFilterQuery (JObj [(key, JObj ops)]) i =
          buildFilterQuery (JObj [(key, JObj (filter (\<lambda>ov. fst ov \<in> set filterOperators) ops))]) i
      \<and> (op \<notin> set filterOperators \<longrightarrow>
           buildFilterQuery (JObj [(key, JObj [(op, val)])]) i =
             Inr \<lparr>fq_query = [], fq_params = [], fq_nextIndex = i\<rparr>)
      \<and> buildFilterQuery (JObj [(key, JObj [(''$between'', JArr bounds)])]) i =
           Inr \<lparr>fq_query = ''CAST('' @ jsonPathOf key @ '' AS NUMERIC) BETWEEN '' @ placeholder i
                              @ '' AND '' @ placeholder (i + 1),
                fq_params = [PValue (if 0 < length bounds then bounds ! 0 else JUndefined),
                             PValue (if 1 < length bounds then bounds ! 1 else JUndefined)],
                fq_nextIndex = i + 2\<rparr>)"
proof (intro conjI impI allI)
  fix err assume "buildFilterQuery f i = Inl err"
  then have "isTypeError err"
    using compile_TypeError(1) [of f i] by simp
  then show "\<exists>m. err = TypeError m"
    by (cases err) (simp_all add: isTypeError_def)
next
  show "buildFilterQuery f i = buildFilterQuery (dropUnrecognized f) i"
    by (simp only: compile_drop(1))
next
  assume "key \<noteq> ''$and'' \<and> key \<noteq> ''$or'' \<and> key \<noteq> ''$not''"
  then have k: "key \<noteq> ''$and''" "key \<noteq> ''$or''" "key \<noteq> ''$not''" by simp_all
  show "buildFilterQuery (JObj [(key, JObj ops)]) i =
           buildFilterQuery (JObj [(key, JObj (filter (\<lambda>ov. fst ov \<in> set filterOperators) ops))]) i"
    unfolding buildFilterQuery_field [OF k]
    using processOperators_filter [of key ops] by (simp add: processField_def)
  show "buildFilterQuery (JObj [(key, JObj [(op, val)])]) i =
            Inr \<lparr>fq_query = [], fq_params = [], fq_nextIndex = i\<rparr>" if "op \<notin> set filterOperators"
    unfolding buildFilterQuery_field [OF k]
    using that by (simp add: processField_def processOperator_unrecognized finish_def)
  show "buildFilterQuery (JObj [(key, JObj [(''$between'', JArr bounds)])]) i =
          Inr \<lparr>fq_query = ''CAST('' @ jsonPathOf key @ '' AS NUMERIC) BETWEEN '' @ placeholder i
                             @ '' AND '' @ placeholder (i + 1),
               fq_params = [PValue (if 0 < length bounds then bounds ! 0 else JUndefined),
                            PValue (if 1 < length bounds then bounds ! 1 else JUndefined)],
               fq_nextIndex = i + 2\<rparr>"
    unfolding buildFilterQuery_field [OF k]
    by (simp add: processField_def processOperator_between finish_def push_def)
qed

lemma exampleNestedFilter_dropped:
  "buildFilterQuery (dropUnrecognized exampleNestedFilter) 1 =
     Inr \<lparr>fq_query = ''(() AND (metadata->>'title' = $1))'',
          fq_params = [PString (JStr ''a'')], fq_nextIndex = 2\<rparr>"
  by (simp add: exampleNestedFilter_def recognizedOnly_def filterOperators_def
      buildFilterQuery.simps processField_def finish_def absorb_def push_def jsonPathOf_def
      placeholder_def toString.simps digitChar_def)

lemma exampleBadFilter_fails: "\<exists>err. buildFilterQuery exampleBadFilter 1 = Inl err"
  by (simp add: exampleBadFilter_def buildFilterQuery.simps)

theorem buildFilterQuery_does_not_validate_witness:
  "(\<exists>m. buildFilterQuery exampleBadFilter 1 = Inl (TypeError m))
   \<and> buildFilterQuery exampleNestedFilter 1 =
       Inr \<lparr>fq_query = ''(() AND (metadata->>'title' = $1))'',
            fq_params = [PString (JStr ''a'')], fq_nextIndex = 2\<rparr>
   \<and> buildFilterQuery (JObj [(''viewCount'', JObj [(''$gte'', JNum 1000), (''$regex'', JStr ''x'')])]) 1 =
       buildFilterQuery (JObj [(''viewCount'', JObj [(''$gte'', JNum 1000)])]) 1
   \<and> buildFilterQuery (JObj [(''viewCount'', JObj [(''$regex'', JStr ''x'')])]) 1 =
       Inr \<lparr>fq_query = [], fq_params = [], fq_nextIndex = 1\<rparr>
   \<and> buildFilterQuery (JObj [(''viewCount'', JObj [(''$between'', JArr [JNum 1, JNum 2, JNum 3])])]) 1 =
       Inr \<lparr>fq_query = ''CAST(metadata->>'viewCount' AS NUMERIC) BETWEEN $1 AND $2'',
            fq_params = [PValue (JNum 1), PValue (JNum 2)], fq_nextIndex = 3\<rparr>"
proof -
  have k: "''viewCount'' \<noteq> ''$and'' \<and> ''viewCount'' \<noteq> ''$or'' \<and> ''viewCount'' \<noteq> ''$not''"
    by simp
  have d: "toString (Suc 0) = ''1''" "toString (Suc (Suc 0)) = ''2''"
    by (simp_all add: toString.simps digitChar_def)
  note T = buildFilterQuery_does_not_validate [where key = "''viewCount''" and i = 1]
  have e: "\<exists>m. buildFilterQuery exampleBadFilter 1 = Inl (TypeError m)"
    using T [of exampleBadFilter] exampleBadFilter_fails by auto
  have n: "buildFilterQuery exampleNestedFilter 1 =
       Inr \<lparr>fq_query = ''(() AND (metadata->>'title' = $1))'',
            fq_params = [PString (JStr ''a'')], fq_nextIndex = 2\<rparr>"
    using T [of exampleNestedFilter] exampleNestedFilter_dropped by simp
  have a: "buildFilterQuery (JObj [(''viewCount'', JObj [(''$gte'', JNum 1000), (''$regex'', JStr ''x'')])]) 1 =
     buildFilterQuery (JObj [(''viewCount'', JObj [(''$gte'', JNum 1000)])]) 1"
    using T [of "JNull" "[(''$gte'', JNum 1000), (''$regex'', JStr ''x'')]" "''$regex''" "JStr ''x''" "[]"] k
    by (simp add: filterOperators_def)
  have b: "buildFilterQuery (JObj [(''viewCount'', JObj [(''$regex'', JStr ''x'')])]) 1 =
       Inr \<lparr>fq_query = [], fq_params = [], fq_nextIndex = 1\<rparr>"
    using T [of "JNull" "[]" "''$regex''" "JStr ''x''" "[]"] k by (simp add: filterOperators_def)
  have c: "buildFilterQuery (JObj [(''viewCount'', JObj [(''$between'', JArr [JNum 1, JNum 2, JNum 3])])]) 1 =
       Inr \<lparr>fq_query = ''CAST(metadata->>'viewCount' AS NUMERIC) BETWEEN $1 AND $2'',
            fq_params = [PValue (JNum 1), PValue (JNum 2)], fq_nextIndex = 3\<rparr>"
    using T [of "JNull" "[]" "''$regex''" "JStr ''x''" "[JNum 1, JNum 2, JNum 3]"] k
    by (simp add: jsonPathOf_def placeholder_def d)
  from e n a b c show ?thesis by (intro conjI)
qed

text \<open>
  An operator outside the schema's set, and a \<^verbatim>\<open>$between\<close> with one bound: both compile.
\<close>

theorem buildFilterQuery_accepts_malformed:
  "buildFilterQuery (JObj [(''viewCount'', JObj [(''$regex'', JStr ''x'')])]) 1 =
       Inr \<lparr>fq_query = [], fq_params = [], fq_nextIndex = 1\<rparr>
   \<and> buildFilterQuery (JObj [(''viewCount'', JObj [(''$between'', JArr [JNum 1])])]) 1 =
       Inr \<lparr>fq_query = ''CAST(metadata->>'viewCount' AS NUMERIC) BETWEEN $1 AND $2'',
            fq_params = [PValue (JNum 1), PValue JUndefined], fq_nextIndex = 3\<rparr>"
  by (simp add: buildFilterQuery.simps processField_def processOperator_def jsElem_def finish_def
      push_def jsonPathOf_def placeholder_def toString.simps digitChar_def)


section \<open>The hybrid score\<close>

lemma freshnessScore_valid:
  "publishedAt md = Valid t \<Longrightarrow>
     freshnessScore now md = Num (max 0 (1 - ((now - t) / (1000 * 60 * 60 * 24)) / 365))"
  by (simp add: freshnessScore_def daysSincePublished_def publishedTime_def mathMax_def jsSub_def
      jsDiv_def jsLift_def)

lemma freshnessScore_null:
  "publishedAt md = NullDate \<Longrightarrow>
     freshnessScore now md = Num (max 0 (1 - (now / (1000 * 60 * 60 * 24)) / 365))"
  by (simp add: freshnessScore_def daysSincePublished_def publishedTime_def mathMax_def jsSub_def
      jsDiv_def jsLift_def)

lemma freshnessScore_today:
  "publishedAt md = Valid now \<Longrightarrow> freshnessScore now md = Num 1"
  by (simp add: freshnessScore_valid)

lemma freshnessScore_old:
  assumes "publishedAt md = Valid t" "365 \<le> (now - t) / (1000 * 60 * 60 * 24)"
  shows "freshnessScore now md = Num 0"
  using assms by (simp add: freshnessScore_valid max_def)

lemma freshnessScore_NaN:
  "publishedAt md = Missing \<or> publishedAt md = Invalid \<Longrightarrow> freshnessScore now md = NaN"
  by (auto simp: freshnessScore_def daysSincePublished_def publishedTime_def mathMax_def jsSub_def
      jsDiv_def jsLift_def)

lemma calculateHybridScore_eq:
  "calculateHybridScore now v md q w =
     (case freshnessScore now md of
        NaN \<Rightarrow> NaN
      | Num f \<Rightarrow> Num (w_vector w * v + w_freshness w * f + w_popularity w * popularityScore md
                      + w_tags w * tagScore q md))"
  by (simp add: calculateHybridScore_def jsAdd_def jsMul_def jsLift_def split: jsnum.splits)

text \<open>
  C3. For an item with a date the freshness component is \<open>max(0, 1 - days / 365)\<close>, with
  \<open>days\<close> the time since publication in days. Without a parseable \<^verbatim>\<open>publishedAt\<close> the
  freshness component is \<open>NaN\<close>, not \<open>0\<close>, and so is the hybrid score, whatever the weights.
\<close>

theorem freshness_without_date_is_NaN:
  "freshnessScore now (md\<lparr>publishedAt := Valid t\<rparr>) =
     Num (max 0 (1 - ((now - t) / (1000 * 60 * 60 * 24)) / 365))
   \<and> freshnessScore now (md\<lparr>publishedAt := Missing\<rparr>) = NaN
   \<and> freshnessScore now (md\<lparr>publishedAt := Invalid\<rparr>) = NaN
   \<and> calculateHybridScore now vectorScore (md\<lparr>publishedAt := Missing\<rparr>) queryText w = NaN
   \<and> calculateHybridScore now vectorScore (md\<lparr>publishedAt := Invalid\<rparr>) queryText w = NaN"
  by (simp add: calculateHybridScore_eq freshnessScore_NaN freshnessScore_valid)

text \<open>
  C7 (as the code has it). With the weight of a signal non-negative, the other three
  signals unchanged and that signal increased, the hybrid score does not decrease: it
  increases or stays, or is \<open>NaN\<close> before and after.
\<close>

theorem hybridScore_monotone:
  assumes "0 \<le> weightOf w k"
    and "\<forall>s. s \<noteq> k \<longrightarrow> signalValue now' v' md' q' s = signalValue now v md q s"
    and "jsLe (signalValue now v md q k) (signalValue now' v' md' q' k)"
  shows "\<not> jsLt (calculateHybridScore now' v' md' q' w) (calculateHybridScore now v md q w)
       \<and> (jsLe (calculateHybridScore now v md q w) (calculateHybridScore now' v' md' q' w)
          \<or> (calculateHybridScore now v md q w = NaN \<and> calculateHybridScore now' v' md' q' w = NaN))"
proof -
  note others = assms(2) [rule_format]
  show ?thesis
  proof (cases k)
    case VectorSimilarity
    have "freshnessScore now' md' = freshnessScore now md"
      "popularityScore md' = popularityScore md" "tagScore q' md' = tagScore q md"
      using others [of Freshness] others [of Popularity] others [of TagRelevance]
      by (simp_all add: VectorSimilarity signalValue_def)
    moreover have "w_vector w * v \<le> w_vector w * v'"
      using assms(1,3) by (simp add: VectorSimilarity weightOf_def signalValue_def jsLe_def mult_left_mono)
    ultimately show ?thesis
      by (simp add: calculateHybridScore_eq jsLt_def jsLe_def split: jsnum.splits)
  next
    case Freshness
    from assms(3) obtain f f' where f: "freshnessScore now md = Num f" "freshnessScore now' md' = Num f'"
      "f \<le> f'"
      by (auto simp: Freshness signalValue_def jsLe_def split: jsnum.splits)
    have "v' = v" "popularityScore md' = popularityScore md" "tagScore q' md' = tagScore q md"
      using others [of VectorSimilarity] others [of Popularity] others [of TagRelevance]
      by (simp_all add: Freshness signalValue_def)
    moreover have "w_freshness w * f \<le> w_freshness w * f'"
      using assms(1) f(3) by (simp add: Freshness weightOf_def mult_left_mono)
    ultimately show ?thesis
      by (simp add: calculateHybridScore_eq f jsLt_def jsLe_def)
  next
    case Popularity
    have "v' = v" "freshnessScore now' md' = freshnessScore now md" "tagScore q' md' = tagScore q md"
      using others [of VectorSimilarity] others [of Freshness] others [of TagRelevance]
      by (simp_all add: Popularity signalValue_def)
    moreover have "w_popularity w * popularityScore md \<le> w_popularity w * popularityScore md'"
      using assms(1,3) by (simp add: Popularity weightOf_def signalValue_def jsLe_def mult_left_mono)
    ultimately show ?thesis
      by (simp add: calculateHybridScore_eq jsLt_def jsLe_def split: jsnum.splits)
  next
    case TagRelevance
    have "v' = v" "freshnessScore now' md' = freshnessScore now md"
      "popularityScore md' = popularityScore md"
      using others [of VectorSimilarity] others [of Freshness] others [of Popularity]
      by (simp_all add: TagRelevance signalValue_def)
    moreover have "w_tags w * tagScore q md \<le> w_tags w * tagScore q' md'"
      using assms(1,3) by (simp add: TagRelevance weightOf_def signalValue_def jsLe_def mult_left_mono)
    ultimately show ?thesis
      by (simp add: calculateHybridScore_eq jsLt_def jsLe_def split: jsnum.splits)
  qed
qed

lemma exampleMetadata_fresh: "freshnessScore 0 exampleMetadata = Num 1"
  by (rule freshnessScore_today) (simp add: exampleMetadata_def)

theorem hybridScore_monotone_witness:
  "jsLe (calculateHybridScore 0 (5 / 10) exampleMetadata ''cats'' defaultWeights)
        (calculateHybridScore 0 (8 / 10) exampleMetadata ''cats'' defaultWeights)"
proof -
  have a: "0 \<le> weightOf defaultWeights VectorSimilarity"
    by (simp add: weightOf_def defaultWeights_def)
  have b: "\<forall>s. s \<noteq> VectorSimilarity \<longrightarrow>
      signalValue 0 (8 / 10) exampleMetadata ''cats'' s = signalValue 0 (5 / 10) exampleMetadata ''cats'' s"
    by (auto simp: signalValue_def split: signal.splits)
  have c: "jsLe (signalValue 0 (5 / 10) exampleMetadata ''cats'' VectorSimilarity)
      (signalValue 0 (8 / 10) exampleMetadata ''cats'' VectorSimilarity)"
    by (simp add: signalValue_def jsLe_def)
  have "calculateHybridScore 0 (5 / 10) exampleMetadata ''cats'' defaultWeights \<noteq> NaN"
    by (simp add: calculateHybridScore_eq exampleMetadata_fresh)
  with hybridScore_monotone [OF a b c] show ?thesis by blast
qed

text \<open>With a negative weight, raising the signal lowers the score.\<close>

theorem hybridScore_negative_weight:
  "jsLt (calculateHybridScore 0 1 exampleMetadata ''cats'' negativeVectorWeight)
        (calculateHybridScore 0 0 exampleMetadata ''cats'' negativeVectorWeight)"
  by (simp add: calculateHybridScore_eq exampleMetadata_fresh negativeVectorWeight_def jsLt_def)


section \<open>The hybrid vector query tool\<close>

lemma mapM_scoreResult:
  "list_all (\<lambda>r. qr_metadata r \<noteq> None) results \<Longrightarrow>
     mapM (scoreResult now qt w) results =
       Inr (map (\<lambda>r. (r, calculateHybridScore now (qr_score r)
                            (case qr_metadata r of None \<Rightarrow> noMetadata | Some md \<Rightarrow> md) qt w))
                results)"
  by (induction results) (auto simp: scoreResult_def)

lemma byHybridScore_le:
  "snd x \<noteq> NaN \<Longrightarrow> snd y \<noteq> NaN \<Longrightarrow> (byHybridScore x y \<le> 0) = jsLe (snd y) (snd x)"
  by (cases "snd x"; cases "snd y") (simp_all add: byHybridScore_def jsSub_def jsLift_def jsLe_def)

lemma jsLe_trans: "jsLe a b \<Longrightarrow> jsLe b c \<Longrightarrow> jsLe a c"
  by (cases a; cases b; cases c) (simp_all add: jsLe_def)

lemma jsLe_total: "a \<noteq> NaN \<Longrightarrow> b \<noteq> NaN \<Longrightarrow> jsLe a b \<or> jsLe b a"
  by (cases a; cases b) (auto simp: jsLe_def)

lemma sorted_insertBy:
  assumes "sorted_wrt (\<lambda>a b. jsLe (snd b) (snd a)) ys" "snd x \<noteq> NaN" "list_all (\<lambda>r. snd r \<noteq> NaN) ys"
  shows "sorted_wrt (\<lambda>a b. jsLe (snd b) (snd a)) (insertBy byHybridScore x ys)"
  using assms
proof (induction ys)
  case Nil
  then show ?case by simp
next
  case (Cons y ys)
  show ?case
  proof (cases "byHybridScore x y \<le> 0")
    case True
    then have xy: "jsLe (snd y) (snd x)"
      using Cons.prems by (simp add: byHybridScore_le)
    have "\<forall>z\<in>set ys. jsLe (snd z) (snd x)"
      using Cons.prems(1) xy by (auto intro: jsLe_trans)
    then show ?thesis
      using True Cons.prems(1) xy by simp
  next
    case False
    then have "\<not> jsLe (snd y) (snd x)"
      using Cons.prems by (simp add: byHybridScore_le)
    then have yx: "jsLe (snd x) (snd y)"
      using jsLe_total [of "snd x" "snd y"] Cons.prems by auto
    have "sorted_wrt (\<lambda>a b. jsLe (snd b) (snd a)) (insertBy byHybridScore x ys)"
      using Cons by simp
    then show ?thesis
      using False Cons.prems(1) yx by auto
  qed
qed

lemma list_all_insertBy:
  "list_all P (insertBy cmp x ys) = (P x \<and> list_all P ys)"
  by (induction ys) auto

lemma sorted_sortBy:
  "list_all (\<lambda>r. snd r \<noteq> NaN) xs \<Longrightarrow>
     sorted_wrt (\<lambda>a b. jsLe (snd b) (snd a)) (sortBy byHybridScore xs)
     \<and> list_all (\<lambda>r. snd r \<noteq> NaN) (sortBy byHybridScore xs)"
  unfolding sortBy_def
  by (induction xs) (simp_all add: sorted_insertBy list_all_insertBy)

lemma slice0_take: "\<exists>n. slice0 xs k = take n xs"
  by (auto simp: slice0_def Let_def)

lemma sorted_slice0:
  "sorted_wrt R xs \<Longrightarrow> sorted_wrt R (slice0 xs k)"
  using slice0_take [of xs k] by (auto simp: sorted_wrt_take)

lemma length_slice0:
  "0 \<le> k \<Longrightarrow> real (length (slice0 xs k)) \<le> k"
proof -
  assume k: "0 \<le> k"
  then have "slice0 xs k = take (nat \<lfloor>k\<rfloor>) xs"
    by (simp add: slice0_def toIntegerJS_def)
  then have "length (slice0 xs k) \<le> nat \<lfloor>k\<rfloor>" by simp
  then have "real (length (slice0 xs k)) \<le> real (nat \<lfloor>k\<rfloor>)" by simp
  also have "\<dots> \<le> k" using k by simp
  finally show ?thesis .
qed

lemma hybridExecute_success:
  assumes "env_connectionString e = Some c" "c \<noteq> []"
    and "env_embed e (hc_queryText ctx) = Inr q"
    and "filterStage (hc_filter ctx) = Inr (fc, n)"
    and "env_store e (hybridStoreQuery ctx q fc) = Inr results"
    and "list_all (\<lambda>r. qr_metadata r \<noteq> None) results"
  shows "hybridExecute e ctx =
     Inr \<lparr>ho_relevantContext = map (\<lambda>r. qr_metadata (fst r)) (topResults e ctx results),
          ho_sources = map (formatSource (includeScoreOf ctx) (hc_filter ctx)) (topResults e ctx results),
          ho_queryMetadata =
            \<lparr>qm_indexName = hc_indexName ctx,
             qm_totalResults = length (topResults e ctx results),
             qm_filtersApplied = n,
             qm_scoringMethod = ''hybrid''\<rparr>\<rparr>"
  using assms(1-5) mapM_scoreResult [OF assms(6)]
  by (simp add: hybridExecute_def Let_def topResults_def rescored_def topKOf_def weightsOf_def
      includeScoreOf_def)

text \<open>
  C9 (as the code has it). A call of the hybrid tool that reaches the store asks it for
  \<open>topK * 2\<close> rows. When every row has metadata the call succeeds; its sources are the
  first rows, cut by \<^verbatim>\<open>slice(0, topK)\<close>, of the store's rows sorted by hybrid score, so
  they are among the rows of the store; for \<open>topK \<ge> 0\<close> there are at most \<open>topK\<close> of them;
  and when every hybrid score is a number they are in non-increasing order of hybrid
  score.
\<close>

theorem hybrid_query_reranks_candidates:
  assumes "env_connectionString e = Some c" "c \<noteq> []"
    and "env_embed e (hc_queryText ctx) = Inr q"
    and "filterStage (hc_filter ctx) = Inr (fc, n)"
    and "env_store e (hybridStoreQuery ctx q fc) = Inr results"
    and "list_all (\<lambda>r. qr_metadata r \<noteq> None) results"
  shows "sq_topK (hybridStoreQuery ctx q fc) = topKOf ctx * 2
     \<and> (\<exists>out. hybridExecute e ctx = Inr out
           \<and> ho_sources out = map (formatSource (includeScoreOf ctx) (hc_filter ctx)) (topResults e ctx results)
           \<and> (0 \<le> topKOf ctx \<longrightarrow> real (length (ho_sources out)) \<le> topKOf ctx))
     \<and> set (topResults e ctx results) \<subseteq> set (rescored e ctx results)
     \<and> (list_all (\<lambda>r. snd r \<noteq> NaN) (rescored e ctx results) \<longrightarrow>
          sorted_wrt (\<lambda>a b. jsLe (snd b) (snd a)) (topResults e ctx results))"
proof (intro conjI)
  show "sq_topK (hybridStoreQuery ctx q fc) = topKOf ctx * 2"
    by (simp add: hybridStoreQuery_def topKOf_def)
  show "\<exists>out. hybridExecute e ctx = Inr out
           \<and> ho_sources out = map (formatSource (includeScoreOf ctx) (hc_filter ctx)) (topResults e ctx results)
           \<and> (0 \<le> topKOf ctx \<longrightarrow> real (length (ho_sources out)) \<le> topKOf ctx)"
    unfolding hybridExecute_success [OF assms]
    by (simp add: topResults_def length_slice0)
  show "set (topResults e ctx results) \<subseteq> set (rescored e ctx results)"
    using slice0_take [of "sortBy byHybridScore (rescored e ctx results)" "topKOf ctx"]
      set_take_subset
    by (fastforce simp: topResults_def)
  show "list_all (\<lambda>r. snd r \<noteq> NaN) (rescored e ctx results) \<longrightarrow>
          sorted_wrt (\<lambda>a b. jsLe (snd b) (snd a)) (topResults e ctx results)"
    by (simp add: topResults_def sorted_slice0 sorted_sortBy)
qed


lemma exampleRow_score:
  "calculateHybridScore 0 s exampleMetadata ''cats'' defaultWeights =
     Num (6 / 10 * s + 2 / 10 + 15 / 100 * popularityScore exampleMetadata
          + 5 / 100 * tagScore ''cats'' exampleMetadata)"
  by (simp add: calculateHybridScore_eq exampleMetadata_fresh defaultWeights_def)

lemma exampleHybrid_sorted:
  "map (\<lambda>r. qr_id (fst r))
       (sortBy byHybridScore (rescored (exampleEnv rows 0) (exampleHybridCtx k) exampleHybridRows)) =
     [''b'', ''a'', ''c'']"
  by (simp add: rescored_def sortBy_def exampleHybridRows_def exampleRow_def exampleEnv_def
      exampleHybridCtx_def weightsOf_def exampleRow_score byHybridScore_def jsSub_def jsLift_def)

lemma map_slice0: "map f (slice0 xs k) = slice0 (map f xs) k"
  by (simp add: slice0_def Let_def take_map)

lemma exampleHybrid_top:
  "map (\<lambda>r. qr_id (fst r)) (topResults (exampleEnv rows 0) (exampleHybridCtx k) exampleHybridRows) =
     slice0 [''b'', ''a'', ''c''] k"
  unfolding topResults_def map_slice0 exampleHybrid_sorted
  by (simp add: topKOf_def exampleHybridCtx_def)

lemma exampleHybrid_execute:
  "sourceIds (hybridExecute (exampleEnv exampleHybridRows 0) (exampleHybridCtx k)) =
     Some (slice0 [''b'', ''a'', ''c''] k)"
proof -
  have "hybridExecute (exampleEnv exampleHybridRows 0) (exampleHybridCtx k) =
     Inr \<lparr>ho_relevantContext = map (\<lambda>r. qr_metadata (fst r))
             (topResults (exampleEnv exampleHybridRows 0) (exampleHybridCtx k) exampleHybridRows),
          ho_sources = map (formatSource (includeScoreOf (exampleHybridCtx k)) (hc_filter (exampleHybridCtx k)))
             (topResults (exampleEnv exampleHybridRows 0) (exampleHybridCtx k) exampleHybridRows),
          ho_queryMetadata =
            \<lparr>qm_indexName = hc_indexName (exampleHybridCtx k),
             qm_totalResults = length (topResults (exampleEnv exampleHybridRows 0) (exampleHybridCtx k) exampleHybridRows),
             qm_filtersApplied = 0,
             qm_scoringMethod = ''hybrid''\<rparr>\<rparr>"
    by (rule hybridExecute_success [where c = "''postgres://db''" and q = "replicate 1536 1"
          and fc = "JObj []"])
       (simp_all add: exampleEnv_def exampleHybridCtx_def filterStage_def exampleHybridRows_def
          exampleRow_def)
  then show ?thesis
    using exampleHybrid_top [of exampleHybridRows k]
    by (simp add: sourceIds_def formatSource_def comp_def)
qed

theorem hybrid_query_reranks_candidates_witness:
  "sourceIds (hybridExecute (exampleEnv exampleHybridRows 0) (exampleHybridCtx 2)) = Some [''b'', ''a'']
   \<and> sq_topK (hybridStoreQuery (exampleHybridCtx 2) (replicate 1536 1) (JObj [])) = 4
   \<and> sorted_wrt (\<lambda>a b. jsLe (snd b) (snd a))
        (topResults (exampleEnv exampleHybridRows 0) (exampleHybridCtx 2) exampleHybridRows)"
proof -
  let ?e = "exampleEnv exampleHybridRows 0" and ?ctx = "exampleHybridCtx 2"
  have a: "env_connectionString ?e = Some ''postgres://db''" "''postgres://db'' \<noteq> []"
    "env_embed ?e (hc_queryText ?ctx) = Inr (replicate 1536 1)"
    "filterStage (hc_filter ?ctx) = Inr (JObj [], 0)"
    "env_store ?e (hybridStoreQuery ?ctx (replicate 1536 1) (JObj [])) = Inr exampleHybridRows"
    "list_all (\<lambda>r. qr_metadata r \<noteq> None) exampleHybridRows"
    by (simp_all add: exampleEnv_def exampleHybridCtx_def filterStage_def exampleHybridRows_def
        exampleRow_def)
  have n: "list_all (\<lambda>r. snd r \<noteq> NaN) (rescored ?e ?ctx exampleHybridRows)"
    by (simp add: rescored_def exampleHybridRows_def exampleRow_def exampleEnv_def
        exampleHybridCtx_def weightsOf_def exampleRow_score)
  have k: "topKOf ?ctx = 2"
    by (simp add: topKOf_def exampleHybridCtx_def)
  have s: "slice0 [''b'', ''a'', ''c''] 2 = [''b'', ''a'']"
    by (simp add: slice0_def toIntegerJS_def)
  from hybrid_query_reranks_candidates [OF a] n k
  have "sq_topK (hybridStoreQuery ?ctx (replicate 1536 1) (JObj [])) = 4"
    and "sorted_wrt (\<lambda>a b. jsLe (snd b) (snd a)) (topResults ?e ?ctx exampleHybridRows)"
    by simp_all
  then show ?thesis
    using exampleHybrid_execute [of 2] s by simp
qed

text \<open>With \<open>topK = -1\<close> and three rows from the store, the call returns two sources.\<close>

theorem hybrid_query_negative_topK:
  "sourceIds (hybridExecute (exampleEnv exampleHybridRows 0) (exampleHybridCtx (- 1))) = Some [''b'', ''a'']
   \<and> \<not> real (length [''b'', ''a'']) \<le> topKOf (exampleHybridCtx (- 1))"
proof -
  have "slice0 [''b'', ''a'', ''c''] (- 1) = [''b'', ''a'']"
    by (simp add: slice0_def toIntegerJS_def ceiling_def)
  then show ?thesis
    using exampleHybrid_execute [of "- 1"] by (simp add: topKOf_def exampleHybridCtx_def)
qed


end
